theory Spec2Isabelle
  imports Complex_Main "HOL-Library.Log_Nat" "HOL-Library.Multiset"
    "HOL-Library.Product_Lexorder" "HOL-Library.List_Lexorder"
begin

section \<open>JavaScript numbers\<close>

text \<open>
  Frame indices, frame counts, frame rates and the pixel coordinates of an atlas are
  whole numbers (the callers pass array lengths and \<^verbatim>\<open>parseInt\<close> results guarded by
  \<^verbatim>\<open>isNaN\<close>, the manifest format declares integers); they are modelled as \<open>int\<close>,
  on which the double arithmetic of JavaScript is exact below \<open>2 ^ 53\<close>.

  Where the source multiplies or divides to a fraction, the result is the IEEE-754
  binary64 value nearest to the exact one, ties to even. \<open>round_double\<close> computes that
  value as a rational: 53 significant bits, gradual underflow below \<open>2 ^ - 1022\<close>.
  Infinity and NaN have no rational value and stay outside this part of the model.
\<close>

definition pow2 :: "int \<Rightarrow> rat" where
  "pow2 k = 2 powi k"

definition ilog2 :: "rat \<Rightarrow> int" where
  "ilog2 x = (if 1 \<le> x then bitlen \<lfloor>x\<rfloor> - 1 else - bitlen (\<lceil>1 / x\<rceil> - 1))"

definition round_half_even :: "rat \<Rightarrow> int" where
  "round_half_even y =
     (let n = \<lfloor>y\<rfloor>; r = y - of_int n
      in if r < 1 / 2 then n else if 1 / 2 < r then n + 1
         else if even n then n else n + 1)"

definition round_double :: "rat \<Rightarrow> rat" where
  "round_double x =
     (if x = 0 then 0
      else let e = max (ilog2 \<bar>x\<bar>) (- 1022); u = pow2 (e - 52)
           in sgn x * of_int (round_half_even (\<bar>x\<bar> / u)) * u)"

text \<open>The operators \<^verbatim>\<open>*\<close> and \<^verbatim>\<open>/\<close> of the source, on finite operands.\<close>

definition dmul :: "rat \<Rightarrow> rat \<Rightarrow> rat" where
  "dmul a b = round_double (a * b)"

definition ddiv :: "rat \<Rightarrow> rat \<Rightarrow> rat" where
  "ddiv a b = round_double (a / b)"

section \<open>Atlas types (types/AtlasTypes.ts)\<close>

text \<open>
  The manifest is what \<^verbatim>\<open>JSON.parse\<close> returned, checked at run time by the loader, so
  every field may be absent. A field is \<open>None\<close> when the object has no such property
  and otherwise holds a value of the type the interface declares. The fields
  \<^verbatim>\<open>size\<close> and \<^verbatim>\<open>image\<close> of a texture carry the prefix \<open>tex_\<close>, the coordinates the
  prefix of their object.
\<close>

record Size =
  size_w :: "int option"
  size_h :: "int option"

record Rect =
  rect_x :: "int option"
  rect_y :: "int option"
  rect_w :: "int option"
  rect_h :: "int option"

record FrameData =
  filename :: "string option"
  rotated :: "bool option"
  trimmed :: "bool option"
  sourceSize :: "Size option"
  spriteSourceSize :: "Rect option"
  frame :: "Rect option"
  anchor :: "(rat \<times> rat) option"

record TextureData =
  tex_image :: "string option"
  tex_format :: "string option"
  tex_size :: "Size option"
  tex_scale :: "rat option"
  tex_frames :: "FrameData list option"

record AtlasData =
  textures :: "TextureData list option"

section \<open>The playback controller (core/FrameController.ts)\<close>

text \<open>
  The three callbacks of \<^verbatim>\<open>FrameControllerEvents\<close> are observed through the list
  \<open>emitted\<close> of the calls made so far, oldest first. The timer handle is the period in
  milliseconds it was started with.
\<close>

datatype event =
  FrameChange int "FrameData option"
  | PlayStateChange bool
  | FrameRateChange int

record FrameController =
  totalFrames :: int
  currentFrame :: int
  isPlaying :: bool
  frameRate :: int
  animationTimer :: "rat option"
  isLooping :: bool
  getFrameDataCallback :: "int \<Rightarrow> FrameData option"
  emitted :: "event list"

definition new_FrameController :: "(int \<Rightarrow> FrameData option) \<Rightarrow> FrameController" where
  "new_FrameController cb =
     \<lparr>totalFrames = 0, currentFrame = 0, isPlaying = False, frameRate = 12,
      animationTimer = None, isLooping = True, getFrameDataCallback = cb, emitted = []\<rparr>"

definition emit :: "event \<Rightarrow> FrameController \<Rightarrow> FrameController" where
  "emit ev s = s\<lparr>emitted := emitted s @ [ev]\<rparr>"

definition notifyFrameChange :: "FrameController \<Rightarrow> FrameController" where
  "notifyFrameChange s =
     emit (FrameChange (currentFrame s) (getFrameDataCallback s (currentFrame s))) s"

definition setFrame :: "int \<Rightarrow> FrameController \<Rightarrow> FrameController" where
  "setFrame frameIndex s =
     (if frameIndex < 0 \<or> frameIndex \<ge> totalFrames s then s
      else notifyFrameChange (s\<lparr>currentFrame := frameIndex\<rparr>))"

definition setFrameFromProgress :: "rat \<Rightarrow> FrameController \<Rightarrow> FrameController" where
  "setFrameFromProgress progress s =
     setFrame \<lfloor>dmul progress (of_int (max 0 (totalFrames s - 1)))\<rfloor> s"

definition stopAnimation :: "FrameController \<Rightarrow> FrameController" where
  "stopAnimation s =
     (case animationTimer s of None \<Rightarrow> s | Some t \<Rightarrow> s\<lparr>animationTimer := None\<rparr>)"

definition startAnimation :: "FrameController \<Rightarrow> FrameController" where
  "startAnimation s =
     (let s1 = stopAnimation s;
          interval = ddiv 1000 (of_int (frameRate s1))
      in s1\<lparr>animationTimer := Some interval\<rparr>)"

definition pause :: "FrameController \<Rightarrow> FrameController" where
  "pause s =
     (if \<not> isPlaying s then s
      else emit (PlayStateChange False) (stopAnimation (s\<lparr>isPlaying := False\<rparr>)))"

definition play :: "FrameController \<Rightarrow> FrameController" where
  "play s =
     (if isPlaying s \<or> totalFrames s \<le> 1 then s
      else emit (PlayStateChange True) (startAnimation (s\<lparr>isPlaying := True\<rparr>)))"

definition stop :: "FrameController \<Rightarrow> FrameController" where
  "stop s = setFrame 0 (pause s)"

definition togglePlay :: "FrameController \<Rightarrow> FrameController" where
  "togglePlay s = (if isPlaying s then pause s else play s)"

definition initialize :: "int \<Rightarrow> FrameController \<Rightarrow> FrameController" where
  "initialize n s = notifyFrameChange ((stop s)\<lparr>totalFrames := n, currentFrame := 0\<rparr>)"

definition nextFrame :: "FrameController \<Rightarrow> FrameController" where
  "nextFrame s =
     (if totalFrames s = 0 then s
      else let nextIndex = currentFrame s + 1
           in if nextIndex \<ge> totalFrames s
              then (if isLooping s then setFrame 0 s else pause s)
              else setFrame nextIndex s)"

definition previousFrame :: "FrameController \<Rightarrow> FrameController" where
  "previousFrame s =
     (if totalFrames s = 0 then s
      else setFrame (if currentFrame s = 0 then totalFrames s - 1 else currentFrame s - 1) s)"

definition setFrameRate :: "int \<Rightarrow> FrameController \<Rightarrow> FrameController" where
  "setFrameRate fps s =
     (if fps < 1 \<or> fps > 60 then s
      else let s1 = s\<lparr>frameRate := fps\<rparr>;
               s2 = (if isPlaying s1 then startAnimation (stopAnimation s1) else s1)
           in emit (FrameRateChange fps) s2)"

definition setLooping :: "bool \<Rightarrow> FrameController \<Rightarrow> FrameController" where
  "setLooping enabled s = s\<lparr>isLooping := enabled\<rparr>"

definition getProgress :: "FrameController \<Rightarrow> rat" where
  "getProgress s =
     (if totalFrames s \<le> 1 then 0
      else ddiv (of_int (currentFrame s)) (of_int (totalFrames s - 1)))"

definition goToFirstFrame :: "FrameController \<Rightarrow> FrameController" where
  "goToFirstFrame s = setFrame 0 s"

definition goToLastFrame :: "FrameController \<Rightarrow> FrameController" where
  "goToLastFrame s = setFrame (totalFrames s - 1) s"

definition skipFrames :: "int \<Rightarrow> FrameController \<Rightarrow> FrameController" where
  "skipFrames cnt s =
     setFrame (max 0 (min (totalFrames s - 1) (currentFrame s + cnt))) s"

definition cleanup :: "FrameController \<Rightarrow> FrameController" where
  "cleanup s = (stop s)\<lparr>totalFrames := 0, currentFrame := 0, frameRate := 12\<rparr>"

text \<open>The callback \<^verbatim>\<open>startAnimation\<close> hands to \<^verbatim>\<open>setInterval\<close>: one firing of the timer.\<close>

definition timerTick :: "FrameController \<Rightarrow> FrameController" where
  "timerTick s = (if \<not> isPlaying s then stopAnimation s else nextFrame s)"

subsection \<open>Public operations, reachable states, notifications\<close>

datatype op =
  Initialize int
  | SetFrame int
  | SetFrameFromProgress rat
  | NextFrame
  | PreviousFrame
  | Play
  | Pause
  | Stop
  | TogglePlay
  | SetFrameRate int
  | SetLooping bool
  | GoToFirstFrame
  | GoToLastFrame
  | SkipFrames int
  | Cleanup

fun run :: "op \<Rightarrow> FrameController \<Rightarrow> FrameController" where
  "run (Initialize n) s = initialize n s"
| "run (SetFrame i) s = setFrame i s"
| "run (SetFrameFromProgress p) s = setFrameFromProgress p s"
| "run NextFrame s = nextFrame s"
| "run PreviousFrame s = previousFrame s"
| "run Play s = play s"
| "run Pause s = pause s"
| "run Stop s = stop s"
| "run TogglePlay s = togglePlay s"
| "run (SetFrameRate fps) s = setFrameRate fps s"
| "run (SetLooping b) s = setLooping b s"
| "run GoToFirstFrame s = goToFirstFrame s"
| "run GoToLastFrame s = goToLastFrame s"
| "run (SkipFrames n) s = skipFrames n s"
| "run Cleanup s = cleanup s"

text \<open>
  A controller starts as the constructor leaves it and changes by calls of its public
  operations and by firings of its timer while one is set.
\<close>

inductive reachable :: "FrameController \<Rightarrow> bool" where
  constructed: "reachable (new_FrameController cb)"
| called: "reachable s \<Longrightarrow> reachable (run f s)"
| fired: "reachable s \<Longrightarrow> animationTimer s \<noteq> None \<Longrightarrow> reachable (timerTick s)"

definition frame_invariant :: "FrameController \<Rightarrow> bool" where
  "frame_invariant s \<longleftrightarrow>
     (1 \<le> totalFrames s \<longrightarrow> 0 \<le> currentFrame s \<and> currentFrame s \<le> totalFrames s - 1) \<and>
     (totalFrames s = 0 \<longrightarrow> currentFrame s = 0)"

fun isFrameChange :: "event \<Rightarrow> bool" where
  "isFrameChange (FrameChange i d) = True"
| "isFrameChange (PlayStateChange b) = False"
| "isFrameChange (FrameRateChange fps) = False"

text \<open>The frame-change notifications sent while the controller went from \<open>s\<close> to \<open>s'\<close>.\<close>

definition frameChanges :: "FrameController \<Rightarrow> FrameController \<Rightarrow> event list" where
  "frameChanges s s' = filter isFrameChange (drop (length (emitted s)) (emitted s'))"

text \<open>
  Exactly one frame-change notification was sent on the way from \<open>s\<close> to \<open>s'\<close>, and it
  carries the current frame of \<open>s'\<close> with what the lookup callback returns for it.
\<close>

definition firesOnce :: "FrameController \<Rightarrow> FrameController \<Rightarrow> bool" where
  "firesOnce s s' \<longleftrightarrow>
     frameChanges s s' =
       [FrameChange (currentFrame s') (getFrameDataCallback s' (currentFrame s'))]"

section \<open>The atlas loader (class AtlasLoader of core/SpriteRenderer.ts)\<close>

subsection \<open>Natural order of file names\<close>

text \<open>
  Modelled from the spec: \<^verbatim>\<open>String.prototype.localeCompare\<close> with the options
  \<^verbatim>\<open>{numeric: true, sensitivity: "base"}\<close> is the collation of the host, not code of
  the repository. Following the spec's words, a name is cut into runs; a run of decimal
  digits counts by its integer value, every other character counts as text, by its code
  with upper and lower case identified. Runs of digits sort after punctuation and before
  letters, as in the root collation. A key is the list of these items and keys compare
  lexicographically.
\<close>

definition isDigit :: "char \<Rightarrow> bool" where
  "isDigit c \<longleftrightarrow> 48 \<le> (of_char c :: nat) \<and> (of_char c :: nat) \<le> 57"

definition digitValue :: "char \<Rightarrow> nat" where
  "digitValue c = of_char c - 48"

definition isLetter :: "char \<Rightarrow> bool" where
  "isLetter c \<longleftrightarrow>
     (65 \<le> (of_char c :: nat) \<and> (of_char c :: nat) \<le> 90) \<or>
     (97 \<le> (of_char c :: nat) \<and> (of_char c :: nat) \<le> 122) \<or> 128 \<le> (of_char c :: nat)"

definition baseLetter :: "char \<Rightarrow> nat" where
  "baseLetter c =
     (if 65 \<le> (of_char c :: nat) \<and> (of_char c :: nat) \<le> 90 then of_char c + 32 else of_char c)"

definition textItem :: "char \<Rightarrow> nat \<times> nat" where
  "textItem c = (if isLetter c then 2 else 0, baseLetter c)"

fun keyItems :: "nat option \<Rightarrow> string \<Rightarrow> (nat \<times> nat) list" where
  "keyItems None [] = []"
| "keyItems (Some n) [] = [(1, n)]"
| "keyItems None (c # cs) =
     (if isDigit c then keyItems (Some (digitValue c)) cs
      else textItem c # keyItems None cs)"
| "keyItems (Some n) (c # cs) =
     (if isDigit c then keyItems (Some (10 * n + digitValue c)) cs
      else (1, n) # textItem c # keyItems None cs)"

definition naturalKey :: "string \<Rightarrow> (nat \<times> nat) list" where
  "naturalKey name = keyItems None name"

text \<open>The integer a run of decimal digits stands for.\<close>

definition decimalValue :: "string \<Rightarrow> nat" where
  "decimalValue ds = foldl (\<lambda>n c. 10 * n + digitValue c) 0 ds"

text \<open>
  Modelled from the spec: the result of \<^verbatim>\<open>a.localeCompare(b, undefined, {numeric: true,
  sensitivity: "base"})\<close>, negative, zero or positive as the key of \<open>a\<close> is below, equal
  to or above the key of \<open>b\<close>.
\<close>

definition localeCompare :: "string \<Rightarrow> string \<Rightarrow> int" where
  "localeCompare a b =
     (if naturalKey a < naturalKey b then - 1
      else if naturalKey a = naturalKey b then 0 else 1)"

text \<open>
  \<^verbatim>\<open>Array.prototype.sort\<close> with a comparison function is a stable sort; it is modelled
  by stable insertion.
\<close>

fun insertSorted :: "('a \<Rightarrow> 'a \<Rightarrow> int) \<Rightarrow> 'a \<Rightarrow> 'a list \<Rightarrow> 'a list" where
  "insertSorted cmp a [] = [a]"
| "insertSorted cmp a (b # bs) =
     (if cmp a b \<le> 0 then a # b # bs else b # insertSorted cmp a bs)"

definition array_sort :: "('a \<Rightarrow> 'a \<Rightarrow> int) \<Rightarrow> 'a list \<Rightarrow> 'a list" where
  "array_sort cmp xs = foldr (insertSorted cmp) xs []"

subsection \<open>Errors, files and the object URLs of the host\<close>

text \<open>
  One constructor for each \<^verbatim>\<open>throw\<close> and \<^verbatim>\<open>reject\<close> of the loader, carrying what the
  message interpolates; \<open>TypeError\<close> is the host's error on reading a property of
  \<^verbatim>\<open>undefined\<close>. The message \<^verbatim>\<open>Frames must be an array\<close> has no constructor: a
  \<open>tex_frames\<close> field that is present is a list.
\<close>

datatype error =
  InvalidJSON
  | RootNotObject
  | MissingTextures
  | NoTextures
  | TextureMissingField string
  | TextureSizeNotNumeric
  | NoFrames
  | FrameMissingField nat string
  | FrameCoordinates nat
  | FrameSourceSize nat
  | FrameFilename nat
  | ImageLoadFailed
  | FrameBounds nat "string option"
  | TypeError

text \<open>
  The text of the atlas file either fails to parse, or parses to a value that is no
  object (\<^verbatim>\<open>null\<close>, a number, a string, a boolean), or parses to an object. The texture file decodes to an image of some width and
  height, or does not decode.
\<close>

datatype json_root = NonObject | Object AtlasData

datatype atlas_file = Unparsable | Parsed json_root

type_synonym image_file = "(int \<times> int) option"

record Host =
  objectURLs :: "nat set"
  nextURL :: nat
  warnings :: "(int option \<times> int option \<times> int \<times> int) list"

definition createObjectURL :: "Host \<Rightarrow> nat \<times> Host" where
  "createObjectURL h =
     (nextURL h, h\<lparr>objectURLs := insert (nextURL h) (objectURLs h), nextURL := Suc (nextURL h)\<rparr>)"

definition revokeObjectURL :: "nat \<Rightarrow> Host \<Rightarrow> Host" where
  "revokeObjectURL u h = h\<lparr>objectURLs := objectURLs h - {u}\<rparr>"

definition console_warn :: "int option \<times> int option \<times> int \<times> int \<Rightarrow> Host \<Rightarrow> Host" where
  "console_warn m h = h\<lparr>warnings := warnings h @ [m]\<rparr>"

record LoadedAtlas =
  atlas_data :: AtlasData
  textureURL :: nat
  atlas_totalFrames :: nat
  atlas_frames :: "FrameData list"

record AtlasLoader =
  loadedAtlas :: "LoadedAtlas option"

definition new_AtlasLoader :: AtlasLoader where
  "new_AtlasLoader = \<lparr>loadedAtlas = None\<rparr>"

subsection \<open>Structural validation\<close>

text \<open>\<^verbatim>\<open>!v\<close> for a numeric field: the property is missing or is zero.\<close>

definition falsy :: "int option \<Rightarrow> bool" where
  "falsy v \<longleftrightarrow> v = None \<or> v = Some 0"

text \<open>
  \<^verbatim>\<open>String.prototype.trim\<close> on a string of bytes: the white space removed at both ends
  is the ASCII one (tab, line feed, vertical tab, form feed, carriage return, space).
\<close>

definition isSpace :: "char \<Rightarrow> bool" where
  "isSpace c \<longleftrightarrow> (9 \<le> (of_char c :: nat) \<and> (of_char c :: nat) \<le> 13) \<or> (of_char c :: nat) = 32"

definition trim :: "string \<Rightarrow> string" where
  "trim str = rev (dropWhile isSpace (rev (dropWhile isSpace str)))"

definition validateFrameStructure :: "FrameData \<Rightarrow> nat \<Rightarrow> error + unit" where
  "validateFrameStructure fr index =
     (case filename fr of None \<Rightarrow> Inl (FrameMissingField index ''filename'')
      | Some name \<Rightarrow>
     (case frame fr of None \<Rightarrow> Inl (FrameMissingField index ''frame'')
      | Some frameRect \<Rightarrow>
     (case sourceSize fr of None \<Rightarrow> Inl (FrameMissingField index ''sourceSize'')
      | Some srcSize \<Rightarrow>
        if (falsy (rect_x frameRect) \<and> rect_x frameRect \<noteq> Some 0) \<or>
           (falsy (rect_y frameRect) \<and> rect_y frameRect \<noteq> Some 0) \<or>
           falsy (rect_w frameRect) \<or> falsy (rect_h frameRect)
        then Inl (FrameCoordinates index)
        else if falsy (size_w srcSize) \<or> falsy (size_h srcSize)
        then Inl (FrameSourceSize index)
        else if trim name = []
        then Inl (FrameFilename index)
        else Inr ())))"

text \<open>\<^verbatim>\<open>texture.frames.forEach((frame, index) => ...)\<close>, from \<open>index\<close> on.\<close>

fun validateFrames :: "FrameData list \<Rightarrow> nat \<Rightarrow> error + unit" where
  "validateFrames [] index = Inr ()"
| "validateFrames (fr # rest) index =
     (case validateFrameStructure fr index of
        Inl e \<Rightarrow> Inl e
      | Inr u \<Rightarrow> validateFrames rest (Suc index))"

definition validateTextureStructure :: "TextureData \<Rightarrow> error + unit" where
  "validateTextureStructure texture =
     (case tex_image texture of None \<Rightarrow> Inl (TextureMissingField ''image'')
      | Some img \<Rightarrow>
     (case tex_size texture of None \<Rightarrow> Inl (TextureMissingField ''size'')
      | Some sz \<Rightarrow>
     (case tex_frames texture of None \<Rightarrow> Inl (TextureMissingField ''frames'')
      | Some frs \<Rightarrow>
        if falsy (size_w sz) \<or> falsy (size_h sz) then Inl TextureSizeNotNumeric
        else if length frs = 0 then Inl NoFrames
        else validateFrames frs 0)))"

definition validateAtlasStructure :: "json_root \<Rightarrow> error + AtlasData" where
  "validateAtlasStructure parsed =
     (case parsed of
        NonObject \<Rightarrow> Inl RootNotObject
      | Object d \<Rightarrow>
          (case textures d of
             None \<Rightarrow> Inl MissingTextures
           | Some [] \<Rightarrow> Inl NoTextures
           | Some (texture # others) \<Rightarrow>
               (case validateTextureStructure texture of
                  Inl e \<Rightarrow> Inl e
                | Inr u \<Rightarrow> Inr d)))"

definition parseAtlasJSON :: "atlas_file \<Rightarrow> error + AtlasData" where
  "parseAtlasJSON file =
     (case file of
        Unparsable \<Rightarrow> Inl InvalidJSON
      | Parsed v \<Rightarrow> validateAtlasStructure v)"

subsection \<open>Checking the image against the manifest\<close>

text \<open>\<^verbatim>\<open>atlasData.textures[0]\<close>, which is \<^verbatim>\<open>undefined\<close> on an empty array.\<close>

definition firstTexture :: "AtlasData \<Rightarrow> TextureData option" where
  "firstTexture d = (case textures d of Some (texture # others) \<Rightarrow> Some texture | _ \<Rightarrow> None)"

text \<open>\<^verbatim>\<open>texture?.frames || []\<close>\<close>

definition framesOf :: "AtlasData \<Rightarrow> FrameData list" where
  "framesOf d =
     (case firstTexture d of None \<Rightarrow> []
      | Some texture \<Rightarrow> (case tex_frames texture of None \<Rightarrow> [] | Some frs \<Rightarrow> frs))"

text \<open>\<^verbatim>\<open>a + b > limit\<close>; a missing operand makes the sum NaN and the comparison false.\<close>

definition exceeds :: "int option \<Rightarrow> int option \<Rightarrow> int \<Rightarrow> bool" where
  "exceeds a b limit = (case (a, b) of (Some a', Some b') \<Rightarrow> a' + b' > limit | _ \<Rightarrow> False)"

definition outOfBounds :: "Rect \<Rightarrow> int \<Rightarrow> int \<Rightarrow> bool" where
  "outOfBounds r width height \<longleftrightarrow>
     exceeds (rect_x r) (rect_w r) width \<or> exceeds (rect_y r) (rect_h r) height"

text \<open>The loop \<^verbatim>\<open>for (let i = 0; i < frames.length; i++)\<close>, from \<open>i\<close> on.\<close>

fun checkBounds :: "FrameData list \<Rightarrow> nat \<Rightarrow> int \<Rightarrow> int \<Rightarrow> error + unit" where
  "checkBounds [] i width height = Inr ()"
| "checkBounds (fr # rest) i width height =
     (case frame fr of
        None \<Rightarrow> Inl TypeError
      | Some r \<Rightarrow>
          if outOfBounds r width height then Inl (FrameBounds i (filename fr))
          else checkBounds rest (Suc i) width height)"

definition imageOnload :: "int \<Rightarrow> int \<Rightarrow> AtlasData \<Rightarrow> Host \<Rightarrow> (error + unit) \<times> Host" where
  "imageOnload width height atlasData h =
     (case firstTexture atlasData of
        None \<Rightarrow> (checkBounds [] 0 width height, console_warn (None, None, width, height) h)
      | Some texture \<Rightarrow>
          (case tex_size texture of
             None \<Rightarrow> (Inl TypeError, h)
           | Some sz \<Rightarrow>
               let expectedWidth = size_w sz;
                   expectedHeight = size_h sz;
                   h1 = (if Some width \<noteq> expectedWidth \<or> Some height \<noteq> expectedHeight
                         then console_warn (expectedWidth, expectedHeight, width, height) h
                         else h)
               in (checkBounds (framesOf atlasData) 0 width height, h1)))"

definition validateTextureImage ::
  "image_file \<Rightarrow> AtlasData \<Rightarrow> Host \<Rightarrow> (error + unit) \<times> Host" where
  "validateTextureImage file atlasData h =
     (let (src, h1) = createObjectURL h
      in case file of
           None \<Rightarrow> (Inl ImageLoadFailed, revokeObjectURL src h1)
         | Some (width, height) \<Rightarrow>
             let (res, h2) = imageOnload width height atlasData h1
             in (res, revokeObjectURL src h2))"

subsection \<open>Loading\<close>

definition AtlasLoader_cleanup :: "Host \<times> AtlasLoader \<Rightarrow> Host \<times> AtlasLoader" where
  "AtlasLoader_cleanup st =
     (case loadedAtlas (snd st) of
        None \<Rightarrow> st
      | Some la \<Rightarrow> (revokeObjectURL (textureURL la) (fst st), (snd st)\<lparr>loadedAtlas := None\<rparr>))"

text \<open>
  The comparison function of the sort. Every frame that reaches it has passed
  \<open>validateFrameStructure\<close>, so its \<open>filename\<close> is present.
\<close>

definition nameOf :: "FrameData \<Rightarrow> string" where
  "nameOf fr = (case filename fr of Some n \<Rightarrow> n | None \<Rightarrow> [])"

definition compareFrames :: "FrameData \<Rightarrow> FrameData \<Rightarrow> int" where
  "compareFrames a b = localeCompare (nameOf a) (nameOf b)"

definition loadAtlas ::
  "image_file \<Rightarrow> atlas_file \<Rightarrow> Host \<times> AtlasLoader \<Rightarrow> (error + LoadedAtlas) \<times> Host \<times> AtlasLoader" where
  "loadAtlas textureFile atlasFile st =
     (case parseAtlasJSON atlasFile of
        Inl e \<Rightarrow> (Inl e, AtlasLoader_cleanup st)
      | Inr atlasData \<Rightarrow>
          let (url, h1) = createObjectURL (fst st);
              (res, h2) = validateTextureImage textureFile atlasData h1
          in case res of
               Inl e \<Rightarrow> (Inl e, AtlasLoader_cleanup (h2, snd st))
             | Inr u \<Rightarrow>
                 let sortedFrames = array_sort compareFrames (framesOf atlasData);
                     la = \<lparr>atlas_data = atlasData, textureURL = url,
                           atlas_totalFrames = length sortedFrames,
                           atlas_frames = sortedFrames\<rparr>
                 in (Inr la, h2, (snd st)\<lparr>loadedAtlas := Some la\<rparr>))"

definition getFrameData :: "AtlasLoader \<Rightarrow> int \<Rightarrow> FrameData option" where
  "getFrameData ldr index =
     (case loadedAtlas ldr of
        None \<Rightarrow> None
      | Some la \<Rightarrow>
          if index < 0 \<or> index \<ge> int (atlas_totalFrames la) then None
          else Some (atlas_frames la ! nat index))"

section \<open>Placing the sprite (class SpriteRenderer of core/SpriteRenderer.ts)\<close>

text \<open>
  The coordinates handed to the rendering surface are JavaScript numbers. A coordinate
  read from a property that the frame does not have is \<^verbatim>\<open>undefined\<close> and turns the
  arithmetic into NaN; every other result is the double nearest to the exact one.
\<close>

datatype number = Num rat | NaN

definition toNumber :: "int option \<Rightarrow> number" where
  "toNumber v = (case v of None \<Rightarrow> NaN | Some i \<Rightarrow> Num (of_int i))"

fun num_add :: "number \<Rightarrow> number \<Rightarrow> number" where
  "num_add (Num a) (Num b) = Num (round_double (a + b))"
| "num_add a b = NaN"

fun num_sub :: "number \<Rightarrow> number \<Rightarrow> number" where
  "num_sub (Num a) (Num b) = Num (round_double (a - b))"
| "num_sub a b = NaN"

fun num_mul :: "number \<Rightarrow> number \<Rightarrow> number" where
  "num_mul (Num a) (Num b) = Num (round_double (a * b))"
| "num_mul a b = NaN"

text \<open>Division by the literal \<^verbatim>\<open>2\<close>, the only divisor of this part of the source.\<close>

fun num_half :: "number \<Rightarrow> number" where
  "num_half (Num a) = Num (round_double (a / 2))"
| "num_half NaN = NaN"

record CanvasConfig =
  cfg_width :: int
  cfg_height :: int
  cfg_backgroundColor :: int
  cfg_antialias :: bool

definition DEFAULT_CANVAS_CONFIG :: CanvasConfig where
  "DEFAULT_CANVAS_CONFIG =
     \<lparr>cfg_width = 800, cfg_height = 600, cfg_backgroundColor = 2899536, cfg_antialias = True\<rparr>"

text \<open>The field \<^verbatim>\<open>canvasCenter\<close> is assigned by the constructor only.\<close>

definition canvasCenter :: "number \<times> number" where
  "canvasCenter =
     (num_half (Num (of_int (cfg_width DEFAULT_CANVAS_CONFIG))),
      num_half (Num (of_int (cfg_height DEFAULT_CANVAS_CONFIG))))"

record Sprite =
  sprite_x :: number
  sprite_y :: number
  sprite_scale :: number

record SpriteRenderer =
  sprite :: "Sprite option"
  loadedFrames :: "FrameData list"
  currentFrameIndex :: int
  scaleFactor :: number

definition setPosition :: "number \<Rightarrow> number \<Rightarrow> SpriteRenderer \<Rightarrow> SpriteRenderer" where
  "setPosition px py r =
     (case sprite r of
        None \<Rightarrow> r
      | Some sp \<Rightarrow> r\<lparr>sprite := Some (sp\<lparr>sprite_x := px, sprite_y := py\<rparr>)\<rparr>)"

definition adjustSpritePosition :: "FrameData \<Rightarrow> SpriteRenderer \<Rightarrow> SpriteRenderer" where
  "adjustSpritePosition frameData r =
     (case sprite r of
        None \<Rightarrow> r
      | Some sp \<Rightarrow>
          (case (spriteSourceSize frameData, sourceSize frameData) of
             (Some sss, Some src) \<Rightarrow>
               let offsetX = num_sub (num_add (toNumber (rect_x sss)) (num_half (toNumber (rect_w sss))))
                                     (num_half (toNumber (size_w src)));
                   offsetY = num_sub (num_add (toNumber (rect_y sss)) (num_half (toNumber (rect_h sss))))
                                     (num_half (toNumber (size_h src)))
               in setPosition (num_add (fst canvasCenter) (num_mul offsetX (scaleFactor r)))
                              (num_add (snd canvasCenter) (num_mul offsetY (scaleFactor r))) r
           | _ \<Rightarrow> setPosition (fst canvasCenter) (snd canvasCenter) r))"

text \<open>Where the sprite stands, if there is one.\<close>

definition spritePosition :: "SpriteRenderer \<Rightarrow> (number \<times> number) option" where
  "spritePosition r =
     (case sprite r of None \<Rightarrow> None | Some sp \<Rightarrow> Some (sprite_x sp, sprite_y sp))"

section \<open>Example inputs\<close>

text \<open>
  A frame record as the packer writes it for an untrimmed sprite, a manifest with one
  texture sheet, and the host and loader before the first load.
\<close>

definition packedFrame :: "string \<Rightarrow> int \<Rightarrow> int \<Rightarrow> int \<Rightarrow> int \<Rightarrow> FrameData" where
  "packedFrame name px py pw ph =
     \<lparr>filename = Some name, rotated = Some False, trimmed = Some False,
      sourceSize = Some \<lparr>size_w = Some pw, size_h = Some ph\<rparr>,
      spriteSourceSize =
        Some \<lparr>rect_x = Some 0, rect_y = Some 0, rect_w = Some pw, rect_h = Some ph\<rparr>,
      frame = Some \<lparr>rect_x = Some px, rect_y = Some py, rect_w = Some pw, rect_h = Some ph\<rparr>,
      anchor = Some (1 / 2, 1 / 2)\<rparr>"

definition sheetManifest :: "int \<Rightarrow> int \<Rightarrow> FrameData list \<Rightarrow> AtlasData" where
  "sheetManifest sheetW sheetH frs =
     \<lparr>textures = Some [\<lparr>tex_image = Some ''sheet.png'', tex_format = Some ''RGBA8888'',
        tex_size = Some \<lparr>size_w = Some sheetW, size_h = Some sheetH\<rparr>,
        tex_scale = Some 1, tex_frames = Some frs\<rparr>]\<rparr>"

definition freshHost :: Host where
  "freshHost = \<lparr>objectURLs = {}, nextURL = 0, warnings = []\<rparr>"

definition threeFrames :: "FrameData list" where
  "threeFrames =
     [packedFrame ''a_02.png'' 0 0 10 10, packedFrame ''a_10.png'' 10 0 10 10,
      packedFrame ''a_1.png'' 20 0 10 10]"

text \<open>What loading \<open>threeFrames\<close> from a 30 by 10 image returns.\<close>

definition threeFramesLoaded :: LoadedAtlas where
  "threeFramesLoaded =
     \<lparr>atlas_data = sheetManifest 30 10 threeFrames, textureURL = 0, atlas_totalFrames = 3,
      atlas_frames =
        [packedFrame ''a_1.png'' 20 0 10 10, packedFrame ''a_02.png'' 0 0 10 10,
         packedFrame ''a_10.png'' 10 0 10 10]\<rparr>"

text \<open>A frame whose rectangle has a negative width, and one whose rectangle has none.\<close>

definition negativeWidthFrame :: FrameData where
  "negativeWidthFrame =
     (packedFrame ''b.png'' 0 0 5 3)
       \<lparr>frame := Some \<lparr>rect_x = Some 0, rect_y = Some 0, rect_w = Some (- 5), rect_h = Some 3\<rparr>\<rparr>"

definition noWidthFrame :: FrameData where
  "noWidthFrame =
     (packedFrame ''c.png'' 0 0 5 3)
       \<lparr>frame := Some \<lparr>rect_x = Some 0, rect_y = Some 0, rect_w = None, rect_h = Some 3\<rparr>\<rparr>"

text \<open>The file names of a load that succeeded.\<close>

definition loadedNames :: "(error + LoadedAtlas) \<times> Host \<times> AtlasLoader \<Rightarrow> error + string list" where
  "loadedNames res =
     (case fst res of Inl e \<Rightarrow> Inl e | Inr la \<Rightarrow> Inr (map nameOf (atlas_frames la)))"

definition noFrameData :: "int \<Rightarrow> FrameData option" where
  "noFrameData index = None"

text \<open>A controller playing three frames without looping, stepped to its last frame.\<close>

definition playingLastFrame :: FrameController where
  "playingLastFrame =
     setFrame 2 (play (setLooping False (initialize 3 (new_FrameController noFrameData))))"

text \<open>The controller of an atlas of 23 frames, showing frame 15.\<close>

definition frame15of23 :: FrameController where
  "frame15of23 = setFrame 15 (initialize 23 (new_FrameController noFrameData))"

text \<open>
  A frame trimmed to 30 by 40 pixels at (10, 20) of its 100 by 100 source, and a
  renderer showing a sprite at half size.
\<close>

definition trimmedFrame :: FrameData where
  "trimmedFrame =
     \<lparr>filename = Some ''t.png'', rotated = Some False, trimmed = Some True,
      sourceSize = Some \<lparr>size_w = Some 100, size_h = Some 100\<rparr>,
      spriteSourceSize =
        Some \<lparr>rect_x = Some 10, rect_y = Some 20, rect_w = Some 30, rect_h = Some 40\<rparr>,
      frame = Some \<lparr>rect_x = Some 0, rect_y = Some 0, rect_w = Some 30, rect_h = Some 40\<rparr>,
      anchor = Some (1 / 2, 1 / 2)\<rparr>"

definition halfSizeRenderer :: SpriteRenderer where
  "halfSizeRenderer =
     \<lparr>sprite = Some \<lparr>sprite_x = Num 0, sprite_y = Num 0, sprite_scale = Num (1 / 2)\<rparr>,
      loadedFrames = [trimmedFrame], currentFrameIndex = 0, scaleFactor = Num (1 / 2)\<rparr>"

section \<open>Properties of the rounding\<close>

text \<open>
  \<open>ilog2\<close> is the binary exponent of a positive rational; rounding keeps the order
  against integers below \<open>2 ^ 53\<close> and returns such integers unchanged.
\<close>

lemma pow2_pos: "0 < pow2 k"
  by (simp add: pow2_def)

lemma pow2_add: "pow2 (a + b) = pow2 a * pow2 b"
  by (simp add: pow2_def power_int_add)

lemma pow2_mono: "a \<le> b \<Longrightarrow> pow2 a \<le> pow2 b"
  by (simp add: pow2_def power_int_increasing)

lemma pow2_of_nat: "0 \<le> k \<Longrightarrow> pow2 k = of_int (2 ^ nat k)"
  by (simp add: pow2_def power_int_nonneg_exp)

lemma pow2_neg: "k \<le> 0 \<Longrightarrow> pow2 k = 1 / of_int (2 ^ nat (- k))"
  using power_int_minus_divide [of "2::rat" "- k"]
  by (simp add: pow2_def power_int_nonneg_exp)

lemma ilog2_ge1:
  assumes "1 \<le> x"
  shows "pow2 (ilog2 x) \<le> x \<and> x < pow2 (ilog2 x + 1)"
proof -
  let ?n = "\<lfloor>x\<rfloor>"
  have n: "0 < ?n" using assms by simp
  have b: "2 ^ nat (bitlen ?n - 1) \<le> ?n" "?n < 2 ^ nat (bitlen ?n)"
    using bitlen_bounds [OF n] by simp_all
  have bl: "1 \<le> bitlen ?n"
    using n bitlen_eq_zero_iff [of ?n] bitlen_nonneg [of ?n] by linarith
  have e: "ilog2 x = bitlen ?n - 1" using assms by (simp add: ilog2_def)
  have "pow2 (bitlen ?n - 1) = of_int (2 ^ nat (bitlen ?n - 1))"
    using bl by (simp add: pow2_of_nat)
  also have "\<dots> \<le> of_int ?n" using b(1) by (simp only: of_int_le_iff)
  also have "\<dots> \<le> x" by simp
  finally have lo: "pow2 (ilog2 x) \<le> x" by (simp add: e)
  have "?n + 1 \<le> 2 ^ nat (bitlen ?n)" using b(2) by simp
  then have "(of_int (?n + 1) :: rat) \<le> of_int (2 ^ nat (bitlen ?n))"
    by (simp only: of_int_le_iff)
  moreover have "x < of_int (?n + 1)" by linarith
  moreover have "pow2 (bitlen ?n) = of_int (2 ^ nat (bitlen ?n))"
    using bl by (simp add: pow2_of_nat)
  ultimately have "x < pow2 (ilog2 x + 1)" by (simp add: e)
  with lo show ?thesis by simp
qed

lemma ilog2_lt1:
  assumes "0 < x" "x < 1"
  shows "pow2 (ilog2 x) \<le> x \<and> x < pow2 (ilog2 x + 1)"
proof -
  let ?y = "1 / x"
  let ?m = "\<lceil>?y\<rceil> - 1"
  let ?k = "bitlen ?m"
  have y: "1 < ?y" using assms by simp
  then have c: "2 \<le> \<lceil>?y\<rceil>" by linarith
  then have m: "0 < ?m" by simp
  have b: "2 ^ nat (?k - 1) \<le> ?m" "?m < 2 ^ nat ?k"
    using bitlen_bounds [OF m] by simp_all
  have bl: "1 \<le> ?k"
    using m bitlen_eq_zero_iff [of ?m] bitlen_nonneg [of ?m] by linarith
  have e: "ilog2 x = - ?k" using assms by (simp add: ilog2_def)
  have "\<lceil>?y\<rceil> \<le> 2 ^ nat ?k" using b(2) by simp
  then have "(of_int \<lceil>?y\<rceil> :: rat) \<le> of_int (2 ^ nat ?k)" by (simp only: of_int_le_iff)
  moreover have "?y \<le> of_int \<lceil>?y\<rceil>" by simp
  ultimately have up: "?y \<le> of_int (2 ^ nat ?k)" by linarith
  have p: "(0::rat) < of_int (2 ^ nat ?k)" by simp
  have "1 / of_int (2 ^ nat ?k) \<le> x"
    using up assms(1) p by (simp add: field_simps)
  moreover have "pow2 (- ?k) = 1 / of_int (2 ^ nat ?k)"
    using bl pow2_neg [of "- ?k"] by simp
  ultimately have lo: "pow2 (ilog2 x) \<le> x" by (simp add: e)
  have "(of_int (2 ^ nat (?k - 1)) :: rat) \<le> of_int ?m" using b(1) by (simp only: of_int_le_iff)
  moreover have "of_int ?m < ?y" by linarith
  ultimately have lw: "of_int (2 ^ nat (?k - 1)) < ?y" by linarith
  have p': "(0::rat) < of_int (2 ^ nat (?k - 1))" by simp
  have "x < 1 / of_int (2 ^ nat (?k - 1))"
    using lw assms(1) p' by (simp add: field_simps)
  moreover have "pow2 (- ?k + 1) = 1 / of_int (2 ^ nat (?k - 1))"
    using bl pow2_neg [of "- ?k + 1"] by simp
  ultimately have "x < pow2 (ilog2 x + 1)" by (simp add: e)
  with lo show ?thesis by simp
qed

lemma ilog2_bounds: "0 < x \<Longrightarrow> pow2 (ilog2 x) \<le> x \<and> x < pow2 (ilog2 x + 1)"
  using ilog2_ge1 [of x] ilog2_lt1 [of x] by (cases "1 \<le> x") auto

lemma rhe_le: "y \<le> of_int K \<Longrightarrow> round_half_even y \<le> K"
proof -
  assume a: "y \<le> of_int K"
  have f: "\<lfloor>y\<rfloor> \<le> K" using a by (simp add: floor_le_iff)
  show ?thesis
  proof (cases "\<lfloor>y\<rfloor> = K")
    case True
    then have "y - of_int \<lfloor>y\<rfloor> \<le> 0" using a by simp
    then show ?thesis using True by (simp add: round_half_even_def Let_def)
  next
    case False
    then have "\<lfloor>y\<rfloor> + 1 \<le> K" using f by simp
    then show ?thesis by (simp add: round_half_even_def Let_def)
  qed
qed

lemma rhe_ge: "of_int K \<le> y \<Longrightarrow> K \<le> round_half_even y"
proof -
  assume a: "of_int K \<le> y"
  have "K \<le> \<lfloor>y\<rfloor>" using a by (simp add: le_floor_iff)
  then show ?thesis by (simp add: round_half_even_def Let_def)
qed

lemma rhe_int: "round_half_even (of_int K) = K"
  by (simp add: round_half_even_def)

lemma rhe_err: "\<bar>of_int (round_half_even y) - y\<bar> \<le> 1 / 2"
proof -
  have "0 \<le> y - of_int \<lfloor>y\<rfloor>" "y - of_int \<lfloor>y\<rfloor> < 1" by linarith+
  then show ?thesis by (auto simp: round_half_even_def Let_def abs_le_iff)
qed

lemma round_double_pos:
  "0 < x \<Longrightarrow> round_double x =
     of_int (round_half_even (x / pow2 (max (ilog2 x) (- 1022) - 52))) *
       pow2 (max (ilog2 x) (- 1022) - 52)"
  by (simp add: round_double_def Let_def)

lemma round_double_nonneg: "0 \<le> x \<Longrightarrow> 0 \<le> round_double x"
proof (cases "x = 0")
  case True
  then show ?thesis by (simp add: round_double_def)
next
  case False
  assume "0 \<le> x"
  with False have x: "0 < x" by simp
  let ?u = "pow2 (max (ilog2 x) (- 1022) - 52)"
  have "of_int 0 \<le> x / ?u" using x pow2_pos [of "max (ilog2 x) (- 1022) - 52"] by simp
  then have "0 \<le> round_half_even (x / ?u)" by (rule rhe_ge)
  then show ?thesis using pow2_pos [of "max (ilog2 x) (- 1022) - 52"]
    by (simp add: round_double_pos [OF x])
qed

lemma round_double_le_int:
  assumes x: "0 < x" and le: "x \<le> of_int k" and k: "k < 2 ^ 53"
  shows "round_double x \<le> of_int k"
proof -
  let ?e = "max (ilog2 x) (- 1022)"
  let ?u = "pow2 (?e - 52)"
  have up: "0 < ?u" by (rule pow2_pos)
  have "pow2 (ilog2 x) \<le> x" using ilog2_bounds [OF x] by simp
  also have "x < 2 ^ 53" using le k
    by (metis (no_types, opaque_lifting) le_less_trans of_int_less_iff of_int_numeral of_int_power)
  finally have "pow2 (ilog2 x) < pow2 53" by (simp add: pow2_def)
  then have "ilog2 x < 53" using pow2_mono [of 53 "ilog2 x"] by (cases "ilog2 x < 53") auto
  then have e: "?e - 52 \<le> 0" by simp
  define K where "K = k * 2 ^ nat (- (?e - 52))"
  have "?u = 1 / of_int (2 ^ nat (- (?e - 52)))" using pow2_neg [OF e] .
  then have ku: "of_int k / ?u = of_int K" by (simp add: K_def)
  have "x / ?u \<le> of_int k / ?u" using le up by (simp add: divide_right_mono)
  then have "round_half_even (x / ?u) \<le> K" using ku rhe_le by simp
  then have "(of_int (round_half_even (x / ?u)) :: rat) \<le> of_int K" by (simp only: of_int_le_iff)
  then have "of_int (round_half_even (x / ?u)) * ?u \<le> of_int K * ?u"
    using up by (simp add: mult_right_mono)
  moreover have "of_int K * ?u = of_int k" using ku up by (simp add: field_simps)
  ultimately show ?thesis by (simp add: round_double_pos [OF x])
qed

lemma round_double_ge_int:
  assumes x: "0 < x" and le: "of_int k \<le> x" and k0: "0 < k" and k: "k < 2 ^ 53"
  shows "of_int k \<le> round_double x"
proof -
  let ?e = "max (ilog2 x) (- 1022)"
  let ?u = "pow2 (?e - 52)"
  have up: "0 < ?u" by (rule pow2_pos)
  show ?thesis
  proof (cases "?e - 52 \<le> 0")
    case e: True
    define K where "K = k * 2 ^ nat (- (?e - 52))"
    have "?u = 1 / of_int (2 ^ nat (- (?e - 52)))" using pow2_neg [OF e] .
    then have ku: "of_int k / ?u = of_int K" by (simp add: K_def)
    have "of_int k / ?u \<le> x / ?u" using le up by (simp add: divide_right_mono)
    then have "K \<le> round_half_even (x / ?u)" using ku rhe_ge by simp
    then have "(of_int K :: rat) \<le> of_int (round_half_even (x / ?u))" by (simp only: of_int_le_iff)
    then have "of_int K * ?u \<le> of_int (round_half_even (x / ?u)) * ?u"
      using up by (simp add: mult_right_mono)
    moreover have "of_int K * ?u = of_int k" using ku up by (simp add: field_simps)
    ultimately show ?thesis by (simp add: round_double_pos [OF x])
  next
    case False
    then have e: "53 \<le> ilog2 x" by simp
    have "pow2 53 \<le> pow2 (ilog2 x)" using e by (rule pow2_mono)
    also have "pow2 (ilog2 x) \<le> x" using ilog2_bounds [OF x] by simp
    finally have x53: "2 ^ 53 \<le> x" by (simp add: pow2_def)
    have "pow2 (?e - 52) = of_int (2 ^ nat (?e - 52))" using False by (simp add: pow2_of_nat)
    have "pow2 ?e = pow2 (?e - 52) * pow2 52" using pow2_add [of "?e - 52" 52] by simp
    have "of_int (2 ^ 52) \<le> x / ?u"
    proof -
      have "pow2 ?e \<le> x" using e ilog2_bounds [OF x] by (simp add: max_def)
      then have "?u * pow2 52 \<le> x" using \<open>pow2 ?e = pow2 (?e - 52) * pow2 52\<close> by simp
      then have "pow2 52 \<le> x / ?u" using up by (simp add: field_simps)
      then show ?thesis by (simp add: pow2_def)
    qed
    then have "2 ^ 52 \<le> round_half_even (x / ?u)" by (rule rhe_ge)
    then have "(of_int (2 ^ 52) :: rat) \<le> of_int (round_half_even (x / ?u))"
      by (simp only: of_int_le_iff)
    then have r: "of_int (2 ^ 52) * ?u \<le> of_int (round_half_even (x / ?u)) * ?u"
      using up by (simp add: mult_right_mono)
    have "(of_int k :: rat) \<le> of_int (2 ^ 53)" using k by (simp only: of_int_le_iff)
    also have "\<dots> = pow2 53" by (simp add: pow2_def)
    also have "\<dots> \<le> pow2 ?e" using e by (intro pow2_mono) simp
    also have "\<dots> = of_int (2 ^ 52) * ?u"
      using \<open>pow2 ?e = pow2 (?e - 52) * pow2 52\<close> by (simp add: pow2_def)
    also have "\<dots> \<le> of_int (round_half_even (x / ?u)) * ?u" by (rule r)
    also have "\<dots> = round_double x" by (simp add: round_double_pos [OF x])
    finally show ?thesis .
  qed
qed

lemma round_double_int:
  assumes "0 \<le> k" "k < 2 ^ 53"
  shows "round_double (of_int k) = of_int k"
proof (cases "k = 0")
  case True
  then show ?thesis by (simp add: round_double_def)
next
  case False
  with assms have k0: "0 < k" by simp
  then have x: "(0::rat) < of_int k" by simp
  have "round_double (of_int k) \<le> of_int k"
    using round_double_le_int [OF x _ assms(2)] by simp
  moreover have "of_int k \<le> round_double (of_int k)"
    using round_double_ge_int [OF x _ k0 assms(2)] by simp
  ultimately show ?thesis by simp
qed

section \<open>The playback controller: stepping, invariant, notifications\<close>

lemmas controller_defs =
  setFrame_def notifyFrameChange_def emit_def pause_def play_def stop_def
  stopAnimation_def startAnimation_def togglePlay_def initialize_def nextFrame_def
  previousFrame_def setFrameRate_def setLooping_def goToFirstFrame_def goToLastFrame_def
  skipFrames_def cleanup_def timerTick_def setFrameFromProgress_def

text \<open>
  C4. On the last frame, \<open>nextFrame\<close> with looping disabled keeps \<open>currentFrame\<close> and
  leaves the controller not playing; with looping enabled it goes to frame 0. Before the
  last frame of a controller whose \<open>currentFrame\<close> is not negative it advances by one.
  With no frames it changes nothing.
\<close>

theorem nextFrame_steps:
  "(1 \<le> totalFrames s \<and> currentFrame s = totalFrames s - 1 \<and> \<not> isLooping s \<longrightarrow>
      currentFrame (nextFrame s) = currentFrame s \<and> \<not> isPlaying (nextFrame s)) \<and>
   (1 \<le> totalFrames s \<and> currentFrame s = totalFrames s - 1 \<and> isLooping s \<longrightarrow>
      currentFrame (nextFrame s) = 0) \<and>
   (1 \<le> totalFrames s \<and> 0 \<le> currentFrame s \<and> currentFrame s < totalFrames s - 1 \<longrightarrow>
      currentFrame (nextFrame s) = currentFrame s + 1) \<and>
   (totalFrames s = 0 \<longrightarrow> nextFrame s = s)"
  by (auto simp: nextFrame_def setFrame_def notifyFrameChange_def emit_def pause_def
      stopAnimation_def Let_def split: option.splits)

theorem nextFrame_steps_witness:
  "totalFrames playingLastFrame = 3 \<and> currentFrame playingLastFrame = 2 \<and>
   \<not> isLooping playingLastFrame \<and> isPlaying playingLastFrame \<and>
   currentFrame (nextFrame playingLastFrame) = 2 \<and>
   \<not> isPlaying (nextFrame playingLastFrame) \<and>
   currentFrame (nextFrame (setLooping True playingLastFrame)) = 0 \<and>
   currentFrame (nextFrame (setFrame 0 playingLastFrame)) = 1 \<and>
   totalFrames (new_FrameController noFrameData) = 0 \<and>
   nextFrame (new_FrameController noFrameData) = new_FrameController noFrameData"
  using nextFrame_steps [of playingLastFrame]
    nextFrame_steps [of "setLooping True playingLastFrame"]
    nextFrame_steps [of "setFrame 0 playingLastFrame"]
    nextFrame_steps [of "new_FrameController noFrameData"]
  by (simp add: playingLastFrame_def controller_defs new_FrameController_def Let_def)

lemma frame_invariant_run: "frame_invariant s \<Longrightarrow> frame_invariant (run f s)"
  by (cases f)
    (auto simp: frame_invariant_def controller_defs Let_def split: option.splits if_splits)

lemma frame_invariant_timerTick: "frame_invariant s \<Longrightarrow> frame_invariant (timerTick s)"
  by (auto simp: frame_invariant_def controller_defs Let_def split: option.splits if_splits)

lemma reachable_frame_invariant: "reachable s \<Longrightarrow> frame_invariant s"
proof (induction rule: reachable.induct)
  case (constructed cb)
  show ?case by (simp add: frame_invariant_def new_FrameController_def)
next
  case (called s f)
  then show ?case by (simp add: frame_invariant_run)
next
  case (fired s)
  then show ?case by (simp add: frame_invariant_timerTick)
qed

text \<open>
  C5. In every reachable state \<open>currentFrame\<close> lies in \<open>[0, totalFrames - 1]\<close> when there
  is a frame and is 0 when there is none, and every public operation, run from there,
  ends in a state where this holds again.
\<close>

theorem operations_keep_frame_in_range:
  "reachable s \<Longrightarrow> frame_invariant s \<and> frame_invariant (run f s)"
  using reachable_frame_invariant frame_invariant_run by blast

theorem operations_keep_frame_in_range_witness:
  "reachable playingLastFrame \<and> totalFrames playingLastFrame = 3 \<and>
   currentFrame playingLastFrame = 2 \<and>
   frame_invariant (run (SkipFrames 7) playingLastFrame) \<and>
   currentFrame (run (SkipFrames 7) playingLastFrame) = 2 \<and>
   frame_invariant (run Cleanup playingLastFrame) \<and>
   totalFrames (run Cleanup playingLastFrame) = 0 \<and>
   currentFrame (run Cleanup playingLastFrame) = 0"
proof -
  have r: "reachable playingLastFrame"
    unfolding playingLastFrame_def
    using called [OF called [OF called [OF called [OF constructed [of noFrameData],
      of "Initialize 3"], of "SetLooping False"], of Play], of "SetFrame 2"]
    by simp
  show ?thesis
    using r operations_keep_frame_in_range [OF r, of "SkipFrames 7"]
      operations_keep_frame_in_range [OF r, of Cleanup]
    by (simp add: playingLastFrame_def controller_defs new_FrameController_def Let_def)
qed

lemma progress_index_range:
  assumes "0 \<le> p" "p \<le> 1" "1 \<le> n" "n \<le> 2 ^ 53"
  shows "0 \<le> \<lfloor>dmul p (of_int (n - 1))\<rfloor> \<and> \<lfloor>dmul p (of_int (n - 1))\<rfloor> \<le> n - 1"
proof -
  let ?x = "p * of_int (n - 1)"
  have x0: "0 \<le> ?x" using assms by simp
  have "?x \<le> 1 * of_int (n - 1)" using assms by (intro mult_right_mono) simp_all
  then have xle: "?x \<le> of_int (n - 1)" by simp
  have k: "n - 1 < 2 ^ 53" using assms by simp
  have lo: "0 \<le> round_double ?x" using x0 by (rule round_double_nonneg)
  have hi: "round_double ?x \<le> of_int (n - 1)"
  proof (cases "?x = 0")
    case True
    then show ?thesis using assms by (simp add: round_double_def)
  next
    case False
    have "0 < ?x" by (rule order.not_eq_order_implies_strict [OF not_sym [OF False] x0])
    then show ?thesis using xle k by (rule round_double_le_int)
  qed
  have "\<lfloor>round_double ?x\<rfloor> \<le> \<lfloor>(of_int (n - 1) :: rat)\<rfloor>" using hi by (rule floor_mono)
  then have "\<lfloor>round_double ?x\<rfloor> \<le> n - 1" by simp
  moreover have "0 \<le> \<lfloor>round_double ?x\<rfloor>" using lo by simp
  ultimately show ?thesis by (simp add: dmul_def)
qed

lemma frameChanges_setFrame:
  "0 \<le> i \<Longrightarrow> i < totalFrames s \<Longrightarrow>
     firesOnce s (setFrame i s) \<and> currentFrame (setFrame i s) = i"
  by (simp add: firesOnce_def frameChanges_def setFrame_def notifyFrameChange_def emit_def)

lemma frameChanges_pause: "frameChanges s (pause s) = []"
  by (simp add: frameChanges_def pause_def emit_def stopAnimation_def split: option.splits)

lemma firesOnce_after_pause:
  "0 \<le> i \<Longrightarrow> i < totalFrames s \<Longrightarrow> firesOnce s (setFrame i (pause s))"
  by (simp add: firesOnce_def frameChanges_def setFrame_def notifyFrameChange_def emit_def
      pause_def stopAnimation_def split: option.splits)

text \<open>
  C6, as amended. On a controller that holds frames, each of \<open>setFrame\<close> with an index
  in range (the current one included), \<open>setFrameFromProgress\<close> with a progress in
  \<open>[0, 1]\<close>, \<open>previousFrame\<close>, \<open>stop\<close>, \<open>goToFirstFrame\<close>, \<open>goToLastFrame\<close> and
  \<open>skipFrames\<close> sends exactly one frame-change notification, carrying the current frame
  and the looked-up frame data; so does \<open>nextFrame\<close> unless it stands on the last frame
  with looping disabled. On a controller that holds no frames \<open>initialize\<close> sends
  exactly one.
\<close>

theorem frame_change_notifications:
  "(1 \<le> totalFrames s \<and> 0 \<le> currentFrame s \<and> currentFrame s < totalFrames s \<longrightarrow>
      (0 \<le> i \<and> i < totalFrames s \<longrightarrow> firesOnce s (setFrame i s)) \<and>
      firesOnce s (setFrame (currentFrame s) s) \<and>
      (0 \<le> p \<and> p \<le> 1 \<and> totalFrames s \<le> 2 ^ 53 \<longrightarrow> firesOnce s (setFrameFromProgress p s)) \<and>
      (isLooping s \<or> currentFrame s < totalFrames s - 1 \<longrightarrow> firesOnce s (nextFrame s)) \<and>
      firesOnce s (previousFrame s) \<and>
      firesOnce s (stop s) \<and>
      firesOnce s (goToFirstFrame s) \<and>
      firesOnce s (goToLastFrame s) \<and>
      firesOnce s (skipFrames n s)) \<and>
   (totalFrames s \<le> 0 \<longrightarrow> firesOnce s (initialize n s))"
proof (intro conjI impI)
  assume "totalFrames s \<le> 0"
  then show "firesOnce s (initialize n s)"
    by (simp add: firesOnce_def frameChanges_def initialize_def stop_def setFrame_def
        notifyFrameChange_def emit_def pause_def stopAnimation_def split: option.splits)
next
  assume a: "1 \<le> totalFrames s \<and> 0 \<le> currentFrame s \<and> currentFrame s < totalFrames s"
  show "firesOnce s (setFrame (currentFrame s) s)"
    using a frameChanges_setFrame [of "currentFrame s" s] by simp
  show "firesOnce s (previousFrame s)"
    using a frameChanges_setFrame [of "totalFrames s - 1" s]
      frameChanges_setFrame [of "currentFrame s - 1" s]
    by (simp add: previousFrame_def)
  show "firesOnce s (stop s)"
    using a firesOnce_after_pause [of 0 s] by (simp add: stop_def)
  show "firesOnce s (goToFirstFrame s)"
    using a frameChanges_setFrame [of 0 s] by (simp add: goToFirstFrame_def)
  show "firesOnce s (goToLastFrame s)"
    using a frameChanges_setFrame [of "totalFrames s - 1" s] by (simp add: goToLastFrame_def)
  show "firesOnce s (skipFrames n s)"
    using a frameChanges_setFrame [of "max 0 (min (totalFrames s - 1) (currentFrame s + n))" s]
    by (simp add: skipFrames_def)
  {
    assume "0 \<le> i \<and> i < totalFrames s"
    then show "firesOnce s (setFrame i s)" using frameChanges_setFrame [of i s] by simp
  }
  {
    assume b: "0 \<le> p \<and> p \<le> 1 \<and> totalFrames s \<le> 2 ^ 53"
    have "0 \<le> \<lfloor>dmul p (of_int (totalFrames s - 1))\<rfloor> \<and>
          \<lfloor>dmul p (of_int (totalFrames s - 1))\<rfloor> \<le> totalFrames s - 1"
      using a b progress_index_range [of p "totalFrames s"] by simp
    moreover have "max 0 (totalFrames s - 1) = totalFrames s - 1" using a by simp
    ultimately show "firesOnce s (setFrameFromProgress p s)"
      using frameChanges_setFrame [of "\<lfloor>dmul p (of_int (totalFrames s - 1))\<rfloor>" s]
      by (simp add: setFrameFromProgress_def)
  }
  {
    assume "isLooping s \<or> currentFrame s < totalFrames s - 1"
    then show "firesOnce s (nextFrame s)"
      using a frameChanges_setFrame [of 0 s] frameChanges_setFrame [of "currentFrame s + 1" s]
      by (auto simp: nextFrame_def Let_def)
  }
qed

theorem frame_change_notifications_witness:
  "totalFrames playingLastFrame = 3 \<and> currentFrame playingLastFrame = 2 \<and>
   frameChanges playingLastFrame (setFrame 1 playingLastFrame) = [FrameChange 1 None] \<and>
   frameChanges playingLastFrame (setFrame 2 playingLastFrame) = [FrameChange 2 None] \<and>
   frameChanges playingLastFrame (setFrameFromProgress (1 / 2) playingLastFrame) =
     [FrameChange 1 None] \<and>
   frameChanges (setLooping True playingLastFrame) (nextFrame (setLooping True playingLastFrame)) =
     [FrameChange 0 None] \<and>
   frameChanges playingLastFrame (previousFrame playingLastFrame) = [FrameChange 1 None] \<and>
   frameChanges playingLastFrame (stop playingLastFrame) = [FrameChange 0 None] \<and>
   frameChanges playingLastFrame (skipFrames (- 9) playingLastFrame) = [FrameChange 0 None] \<and>
   totalFrames (new_FrameController noFrameData) = 0 \<and>
   frameChanges (new_FrameController noFrameData) (initialize 3 (new_FrameController noFrameData)) =
     [FrameChange 0 None]"
proof -
  have p: "\<lfloor>dmul (1 / 2) (of_int (max 0 (3 - 1)))\<rfloor> = 1" by code_simp
  show ?thesis
    using frame_change_notifications [of playingLastFrame 1 "1 / 2" "- 9"]
      frame_change_notifications [of "setLooping True playingLastFrame" 1 "1 / 2" "- 9"]
      frame_change_notifications [of "new_FrameController noFrameData" 1 "1 / 2" 3]
      p
    by (simp add: playingLastFrame_def controller_defs new_FrameController_def Let_def
        firesOnce_def frameChanges_def noFrameData_def)
qed

theorem frame_change_notifications_counterexample:
  "frameChanges playingLastFrame (nextFrame playingLastFrame) = [] \<and>
   frameChanges playingLastFrame (initialize 5 playingLastFrame) =
     [FrameChange 0 None, FrameChange 0 None]"
  by (simp add: playingLastFrame_def controller_defs new_FrameController_def Let_def
      frameChanges_def noFrameData_def)

text \<open>
  C7. With at least one frame and a progress \<open>p\<close> in \<open>[0, 1]\<close>, \<open>setFrameFromProgress\<close>
  sets the frame index to the floor of \<open>p * (totalFrames - 1)\<close>, the product being the
  double product the source computes; progress 0 gives frame 0 and progress 1 gives
  the last frame.
\<close>

theorem setFrameFromProgress_index:
  assumes "0 \<le> p" "p \<le> 1" "1 \<le> totalFrames s" "totalFrames s \<le> 2 ^ 53"
  shows "currentFrame (setFrameFromProgress p s) = \<lfloor>dmul p (of_int (totalFrames s - 1))\<rfloor> \<and>
         currentFrame (setFrameFromProgress 0 s) = 0 \<and>
         currentFrame (setFrameFromProgress 1 s) = totalFrames s - 1"
proof -
  have m: "max 0 (totalFrames s - 1) = totalFrames s - 1" using assms by simp
  have idx: "currentFrame (setFrameFromProgress q s) = \<lfloor>dmul q (of_int (totalFrames s - 1))\<rfloor>"
    if "0 \<le> q" "q \<le> 1" for q
    using progress_index_range [OF that assms(3,4)]
    by (simp add: setFrameFromProgress_def m setFrame_def notifyFrameChange_def emit_def)
  have z: "dmul 0 (of_int (totalFrames s - 1)) = 0" by (simp add: dmul_def round_double_def)
  have b: "0 \<le> totalFrames s - 1" "totalFrames s - 1 < 2 ^ 53" using assms by simp_all
  have o: "dmul 1 (of_int (totalFrames s - 1)) = of_int (totalFrames s - 1)"
    using round_double_int [OF b] by (simp add: dmul_def)
  show ?thesis using idx [OF assms(1,2)] idx [of 0] idx [of 1] z o by simp
qed

theorem setFrameFromProgress_index_witness:
  "(0::rat) \<le> 2 / 3 \<and> (2 / 3 :: rat) \<le> 1 \<and> totalFrames playingLastFrame = 3 \<and>
   currentFrame (setFrameFromProgress (2 / 3) playingLastFrame) = 1 \<and>
   currentFrame (setFrameFromProgress 0 playingLastFrame) = 0 \<and>
   currentFrame (setFrameFromProgress 1 playingLastFrame) = 2"
proof -
  have t: "totalFrames playingLastFrame = 3"
    by (simp add: playingLastFrame_def controller_defs new_FrameController_def Let_def)
  have p: "\<lfloor>dmul (2 / 3) (of_int (3 - 1))\<rfloor> = 1" by code_simp
  show ?thesis
    using setFrameFromProgress_index [of "2 / 3" playingLastFrame] t p by simp
qed

section \<open>The atlas loader: order, bounds, structure, object URLs\<close>

subsection \<open>What a parsed and validated manifest looks like\<close>

lemma parse_success:
  assumes "parseAtlasJSON file = Inr d"
  shows "\<exists>t ts img sz frs.
           file = Parsed (Object d) \<and> textures d = Some (t # ts) \<and>
           tex_image t = Some img \<and> tex_size t = Some sz \<and>
           \<not> falsy (size_w sz) \<and> \<not> falsy (size_h sz) \<and>
           tex_frames t = Some frs \<and> frs \<noteq> [] \<and> validateFrames frs 0 = Inr ()"
  using assms
  by (auto simp: parseAtlasJSON_def validateAtlasStructure_def validateTextureStructure_def
      split: atlas_file.splits json_root.splits option.splits list.splits sum.splits if_splits)

lemma parse_success_frames:
  assumes "parseAtlasJSON file = Inr d"
  shows "\<exists>t ts sz. firstTexture d = Some t \<and> textures d = Some (t # ts) \<and>
           tex_size t = Some sz \<and> tex_frames t = Some (framesOf d) \<and>
           framesOf d \<noteq> [] \<and> validateFrames (framesOf d) 0 = Inr ()"
  using parse_success [OF assms] by (auto simp: firstTexture_def framesOf_def)

lemma validateFrames_all:
  "validateFrames frs i = Inr () \<Longrightarrow> k < length frs \<Longrightarrow>
     validateFrameStructure (frs ! k) (i + k) = Inr ()"
proof (induction frs arbitrary: i k)
  case Nil
  then show ?case by simp
next
  case (Cons fr rest)
  have h: "validateFrameStructure fr i = Inr ()" "validateFrames rest (Suc i) = Inr ()"
    using Cons.prems(1) by (auto split: sum.splits)
  show ?case
  proof (cases k)
    case 0
    with h show ?thesis by simp
  next
    case (Suc k')
    then have "k' < length rest" using Cons.prems(2) by simp
    then have "validateFrameStructure (rest ! k') (Suc i + k') = Inr ()"
      using Cons.IH [OF h(2)] by blast
    with Suc show ?thesis by simp
  qed
qed

lemma validateFrames_first_error:
  "k < length frs \<Longrightarrow> \<forall>j<k. validateFrameStructure (frs ! j) (i + j) = Inr () \<Longrightarrow>
     validateFrameStructure (frs ! k) (i + k) = Inl e \<Longrightarrow> validateFrames frs i = Inl e"
proof (induction frs arbitrary: i k)
  case Nil
  then show ?case by simp
next
  case (Cons fr rest)
  show ?case
  proof (cases k)
    case 0
    with Cons.prems show ?thesis by simp
  next
    case (Suc k')
    have first: "validateFrameStructure fr i = Inr ()" using Cons.prems(2) Suc by force
    have "\<forall>j<k'. validateFrameStructure (rest ! j) (Suc i + j) = Inr ()"
      using Cons.prems(2) Suc by force
    moreover have "validateFrameStructure (rest ! k') (Suc i + k') = Inl e"
      using Cons.prems(3) Suc by simp
    moreover have "k' < length rest" using Cons.prems(1) Suc by simp
    ultimately have "validateFrames rest (Suc i) = Inl e" using Cons.IH by blast
    with first show ?thesis by simp
  qed
qed

lemma validateFrames_error_index:
  "validateFrames frs i = Inl e \<Longrightarrow>
     \<exists>k<length frs. validateFrameStructure (frs ! k) (i + k) = Inl e"
proof (induction frs arbitrary: i)
  case Nil
  then show ?case by simp
next
  case (Cons fr rest)
  show ?case
  proof (cases "validateFrameStructure fr i")
    case (Inl e')
    with Cons.prems have "validateFrameStructure ((fr # rest) ! 0) (i + 0) = Inl e" by simp
    then show ?thesis by blast
  next
    case (Inr u)
    with Cons.prems have "validateFrames rest (Suc i) = Inl e" by simp
    then obtain k where "k < length rest" "validateFrameStructure (rest ! k) (Suc i + k) = Inl e"
      using Cons.IH by blast
    then have "Suc k < length (fr # rest) \<and>
               validateFrameStructure ((fr # rest) ! Suc k) (i + Suc k) = Inl e" by simp
    then show ?thesis by blast
  qed
qed

lemma validateFrameStructure_coordinates:
  "validateFrameStructure fr i = Inl (FrameCoordinates k) \<longleftrightarrow>
     k = i \<and> filename fr \<noteq> None \<and> sourceSize fr \<noteq> None \<and>
     (\<exists>r. frame fr = Some r \<and>
        (rect_x r = None \<or> rect_y r = None \<or> falsy (rect_w r) \<or> falsy (rect_h r)))"
  by (auto simp: validateFrameStructure_def falsy_def split: option.splits)

lemma validated_frame_rect:
  "validateFrameStructure fr i = Inr () \<Longrightarrow>
     \<exists>nm r. filename fr = Some nm \<and> frame fr = Some r \<and>
       rect_x r \<noteq> None \<and> rect_y r \<noteq> None \<and> rect_w r \<noteq> None \<and> rect_h r \<noteq> None"
  by (auto simp: validateFrameStructure_def falsy_def split: option.splits if_splits)

subsection \<open>The bounds loop\<close>

lemma checkBounds_ok:
  "\<forall>fr\<in>set frs. \<exists>r. frame fr = Some r \<and> \<not> outOfBounds r W H \<Longrightarrow>
     checkBounds frs i W H = Inr ()"
  by (induction frs arbitrary: i) auto

lemma checkBounds_first:
  "k < length frs \<Longrightarrow> \<forall>j<k. \<exists>r. frame (frs ! j) = Some r \<and> \<not> outOfBounds r W H \<Longrightarrow>
     frame (frs ! k) = Some r \<Longrightarrow> outOfBounds r W H \<Longrightarrow>
     checkBounds frs i W H = Inl (FrameBounds (i + k) (filename (frs ! k)))"
proof (induction frs arbitrary: i k)
  case Nil
  then show ?case by simp
next
  case (Cons fr rest)
  show ?case
  proof (cases k)
    case 0
    with Cons.prems show ?thesis by simp
  next
    case (Suc k')
    obtain r0 where r0: "frame fr = Some r0" "\<not> outOfBounds r0 W H"
      using Cons.prems(2) Suc by force
    have "\<forall>j<k'. \<exists>r. frame (rest ! j) = Some r \<and> \<not> outOfBounds r W H"
      using Cons.prems(2) Suc by force
    moreover have "frame (rest ! k') = Some r" using Cons.prems(3) Suc by simp
    moreover have "k' < length rest" using Cons.prems(1) Suc by simp
    ultimately have "checkBounds rest (Suc i) W H =
        Inl (FrameBounds (Suc i + k') (filename (rest ! k')))"
      using Cons.IH Cons.prems(4) by blast
    with r0 Suc show ?thesis by simp
  qed
qed

subsection \<open>The load, step by step\<close>

lemma loadAtlas_decoded:
  assumes "parseAtlasJSON file = Inr d"
  shows "fst (loadAtlas (Some (W, H)) file st) =
     (case checkBounds (framesOf d) 0 W H of
        Inl e \<Rightarrow> Inl e
      | Inr u \<Rightarrow>
          Inr \<lparr>atlas_data = d, textureURL = nextURL (fst st),
               atlas_totalFrames = length (array_sort compareFrames (framesOf d)),
               atlas_frames = array_sort compareFrames (framesOf d)\<rparr>)"
proof -
  obtain t ts sz where "firstTexture d = Some t" "tex_size t = Some sz"
    using parse_success_frames [OF assms] by blast
  then show ?thesis
    using assms
    by (simp add: loadAtlas_def validateTextureImage_def imageOnload_def createObjectURL_def
        Let_def split: sum.splits prod.splits)
qed

lemma loadAtlas_success:
  assumes "loadAtlas img file st = (Inr la, st')"
  shows "\<exists>d W H. parseAtlasJSON file = Inr d \<and> img = Some (W, H) \<and>
           checkBounds (framesOf d) 0 W H = Inr () \<and>
           atlas_frames la = array_sort compareFrames (framesOf d)"
proof -
  obtain d where d: "parseAtlasJSON file = Inr d"
    using assms by (cases "parseAtlasJSON file") (auto simp: loadAtlas_def)
  obtain W H where img: "img = Some (W, H)"
    using assms d
    by (cases img)
      (auto simp: loadAtlas_def validateTextureImage_def createObjectURL_def Let_def
        split: prod.splits)
  have "fst (loadAtlas (Some (W, H)) file st) = Inr la" using assms img by simp
  then have "checkBounds (framesOf d) 0 W H = Inr () \<and>
             atlas_frames la = array_sort compareFrames (framesOf d)"
    using loadAtlas_decoded [OF d, of W H st] by (auto split: sum.splits)
  with d img show ?thesis by blast
qed

subsection \<open>The sort\<close>

lemma compareFrames_le: "compareFrames a b \<le> 0 \<longleftrightarrow> naturalKey (nameOf a) \<le> naturalKey (nameOf b)"
  by (auto simp: compareFrames_def localeCompare_def)

lemma insertSorted_insort_key:
  "insertSorted compareFrames a bs = insort_key (\<lambda>fr. naturalKey (nameOf fr)) a bs"
  by (induction bs) (simp_all add: compareFrames_le)

lemma array_sort_sort_key:
  "array_sort compareFrames xs = sort_key (\<lambda>fr. naturalKey (nameOf fr)) xs"
proof -
  have "insertSorted compareFrames = insort_key (\<lambda>fr. naturalKey (nameOf fr))"
    by (intro ext) (rule insertSorted_insort_key)
  then show ?thesis by (simp add: array_sort_def sort_key_def)
qed

lemma array_sort_sorted:
  "sorted_wrt (\<lambda>a b. compareFrames a b \<le> 0) (array_sort compareFrames xs)"
proof -
  have "sorted (map (\<lambda>fr. naturalKey (nameOf fr)) (sort_key (\<lambda>fr. naturalKey (nameOf fr)) xs))"
    by (rule sorted_sort_key)
  then show ?thesis by (simp add: array_sort_sort_key sorted_map compareFrames_le)
qed

lemma array_sort_mset: "mset (array_sort compareFrames xs) = mset xs"
  by (simp add: array_sort_sort_key)

lemma keyItems_text_prefix:
  "\<forall>c\<in>set pre. \<not> isDigit c \<Longrightarrow>
     keyItems None (pre @ rest) = map textItem pre @ keyItems None rest"
  by (induction pre) simp_all

lemma keyItems_digit_run:
  "\<forall>c\<in>set ds. isDigit c \<Longrightarrow> suf = [] \<or> \<not> isDigit (hd suf) \<Longrightarrow>
     keyItems (Some n) (ds @ suf) =
       (1, foldl (\<lambda>n c. 10 * n + digitValue c) n ds) # keyItems None suf"
proof (induction ds arbitrary: n)
  case Nil
  then show ?case by (cases suf) auto
next
  case (Cons c ds)
  then show ?case by simp
qed

lemma naturalKey_number:
  assumes "\<forall>c\<in>set pre. \<not> isDigit c" "ds \<noteq> []" "\<forall>c\<in>set ds. isDigit c"
    "suf = [] \<or> \<not> isDigit (hd suf)"
  shows "naturalKey (pre @ ds @ suf) =
     map textItem pre @ (1, decimalValue ds) # keyItems None suf"
proof -
  obtain c cs where ds: "ds = c # cs" using assms(2) by (cases ds) auto
  have "keyItems None (ds @ suf) = keyItems (Some (digitValue c)) (cs @ suf)"
    using assms(3) ds by simp
  also have "\<dots> = (1, foldl (\<lambda>n c. 10 * n + digitValue c) (digitValue c) cs) # keyItems None suf"
    using assms(3,4) ds by (intro keyItems_digit_run) simp_all
  also have "foldl (\<lambda>n c. 10 * n + digitValue c) (digitValue c) cs = decimalValue ds"
    by (simp add: decimalValue_def ds)
  finally show ?thesis
    using keyItems_text_prefix [OF assms(1), of "ds @ suf"] by (simp add: naturalKey_def)
qed

lemma prefix_less: "(xs @ a # ys :: ('a::linorder) list) < xs @ b # zs \<longleftrightarrow> a < b \<or> a = b \<and> ys < zs"
  by (induction xs) simp_all

lemma localeCompare_numbers:
  assumes "\<forall>c\<in>set pre. \<not> isDigit c" "ds1 \<noteq> []" "ds2 \<noteq> []"
    "\<forall>c\<in>set ds1. isDigit c" "\<forall>c\<in>set ds2. isDigit c"
    "suf = [] \<or> \<not> isDigit (hd suf)" "decimalValue ds1 < decimalValue ds2"
  shows "localeCompare (pre @ ds1 @ suf) (pre @ ds2 @ suf) < 0"
proof -
  have "naturalKey (pre @ ds1 @ suf) < naturalKey (pre @ ds2 @ suf)"
    using assms
    by (simp add: naturalKey_number prefix_less)
  then show ?thesis by (simp add: localeCompare_def)
qed

text \<open>
  C1. A load that succeeds returns the frames of the first texture sheet, each once,
  in an order in which no frame is followed by one whose file name compares smaller
  under the natural comparison; of two names that differ in one run of digits only,
  the one with the smaller integer compares smaller, whatever the number of digits. The
  manifest with the frames \<open>a_02.png\<close>, \<open>a_10.png\<close>, \<open>a_1.png\<close> loads as \<open>a_1.png\<close>,
  \<open>a_02.png\<close>, \<open>a_10.png\<close>, and \<open>frame_9\<close> comes before \<open>frame_10\<close>.
\<close>

theorem loadAtlas_natural_order:
  "(loadAtlas img file st = (Inr la, st') \<longrightarrow>
      (\<exists>d. parseAtlasJSON file = Inr d \<and>
         mset (atlas_frames la) = mset (framesOf d) \<and>
         atlas_frames la = array_sort compareFrames (framesOf d) \<and>
         sorted_wrt (\<lambda>a b. compareFrames a b \<le> 0) (atlas_frames la))) \<and>
   ((\<forall>c\<in>set pre. \<not> isDigit c) \<and> ds1 \<noteq> [] \<and> ds2 \<noteq> [] \<and>
    (\<forall>c\<in>set ds1. isDigit c) \<and> (\<forall>c\<in>set ds2. isDigit c) \<and>
    (suf = [] \<or> \<not> isDigit (hd suf)) \<and> decimalValue ds1 < decimalValue ds2 \<longrightarrow>
      localeCompare (pre @ ds1 @ suf) (pre @ ds2 @ suf) < 0) \<and>
   loadedNames (loadAtlas (Some (30, 10)) (Parsed (Object (sheetManifest 30 10 threeFrames)))
      (freshHost, new_AtlasLoader)) = Inr [''a_1.png'', ''a_02.png'', ''a_10.png''] \<and>
   localeCompare ''frame_9'' ''frame_10'' < 0 \<and>
   loadedNames (loadAtlas (Some (20, 10))
      (Parsed (Object (sheetManifest 20 10
         [packedFrame ''frame_10'' 0 0 10 10, packedFrame ''frame_9'' 10 0 10 10])))
      (freshHost, new_AtlasLoader)) = Inr [''frame_9'', ''frame_10'']"
proof (intro conjI impI)
  assume a: "loadAtlas img file st = (Inr la, st')"
  obtain d where d: "parseAtlasJSON file = Inr d"
    "atlas_frames la = array_sort compareFrames (framesOf d)"
    using loadAtlas_success [OF a] by blast
  then show "\<exists>d. parseAtlasJSON file = Inr d \<and>
         mset (atlas_frames la) = mset (framesOf d) \<and>
         atlas_frames la = array_sort compareFrames (framesOf d) \<and>
         sorted_wrt (\<lambda>a b. compareFrames a b \<le> 0) (atlas_frames la)"
    using array_sort_sorted [of "framesOf d"] array_sort_mset [of "framesOf d"] by auto
next
  assume "(\<forall>c\<in>set pre. \<not> isDigit c) \<and> ds1 \<noteq> [] \<and> ds2 \<noteq> [] \<and>
    (\<forall>c\<in>set ds1. isDigit c) \<and> (\<forall>c\<in>set ds2. isDigit c) \<and>
    (suf = [] \<or> \<not> isDigit (hd suf)) \<and> decimalValue ds1 < decimalValue ds2"
  then show "localeCompare (pre @ ds1 @ suf) (pre @ ds2 @ suf) < 0"
    using localeCompare_numbers [of pre ds1 ds2 suf] by blast
next
  show "loadedNames (loadAtlas (Some (30, 10)) (Parsed (Object (sheetManifest 30 10 threeFrames)))
      (freshHost, new_AtlasLoader)) = Inr [''a_1.png'', ''a_02.png'', ''a_10.png'']"
    by code_simp
next
  show "localeCompare ''frame_9'' ''frame_10'' < 0" by code_simp
next
  show "loadedNames (loadAtlas (Some (20, 10))
      (Parsed (Object (sheetManifest 20 10
         [packedFrame ''frame_10'' 0 0 10 10, packedFrame ''frame_9'' 10 0 10 10])))
      (freshHost, new_AtlasLoader)) = Inr [''frame_9'', ''frame_10'']"
    by code_simp
qed

theorem loadAtlas_natural_order_witness:
  "fst (loadAtlas (Some (30, 10)) (Parsed (Object (sheetManifest 30 10 threeFrames)))
      (freshHost, new_AtlasLoader)) = Inr threeFramesLoaded \<and>
   parseAtlasJSON (Parsed (Object (sheetManifest 30 10 threeFrames))) =
     Inr (sheetManifest 30 10 threeFrames) \<and>
   framesOf (sheetManifest 30 10 threeFrames) = threeFrames \<and>
   mset (atlas_frames threeFramesLoaded) = mset threeFrames \<and>
   sorted_wrt (\<lambda>a b. compareFrames a b \<le> 0) (atlas_frames threeFramesLoaded) \<and>
   map nameOf (atlas_frames threeFramesLoaded) = [''a_1.png'', ''a_02.png'', ''a_10.png''] \<and>
   decimalValue ''02'' = 2 \<and> decimalValue ''10'' = 10 \<and>
   localeCompare (''a_'' @ ''02'' @ ''.png'') (''a_'' @ ''10'' @ ''.png'') < 0"
proof -
  let ?file = "Parsed (Object (sheetManifest 30 10 threeFrames))"
  let ?res = "loadAtlas (Some (30, 10)) ?file (freshHost, new_AtlasLoader)"
  have r: "fst ?res = Inr threeFramesLoaded" by code_simp
  then have h: "?res = (Inr threeFramesLoaded, snd ?res)" by (metis prod.collapse)
  have p: "parseAtlasJSON ?file = Inr (sheetManifest 30 10 threeFrames)" by code_simp
  have f: "framesOf (sheetManifest 30 10 threeFrames) = threeFrames" by code_simp
  have n: "map nameOf (atlas_frames threeFramesLoaded) = [''a_1.png'', ''a_02.png'', ''a_10.png'']"
    by code_simp
  have v: "decimalValue ''02'' = 2" "decimalValue ''10'' = 10" by code_simp+
  have dg: "\<forall>c\<in>set ''a_''. \<not> isDigit c" "\<forall>c\<in>set ''02''. isDigit c"
    "\<forall>c\<in>set ''10''. isDigit c" "\<not> isDigit (hd ''.png'')"
    by (simp_all add: isDigit_def)
  note inst = loadAtlas_natural_order [of "Some (30, 10)" ?file "(freshHost, new_AtlasLoader)"
      threeFramesLoaded "snd ?res" "''a_''" "''02''" "''10''" "''.png''"]
  from inst h
  obtain d where d: "parseAtlasJSON ?file = Inr d"
    "mset (atlas_frames threeFramesLoaded) = mset (framesOf d)"
    "sorted_wrt (\<lambda>a b. compareFrames a b \<le> 0) (atlas_frames threeFramesLoaded)"
    by blast
  have c: "localeCompare (''a_'' @ ''02'' @ ''.png'') (''a_'' @ ''10'' @ ''.png'') < 0"
    using inst dg v by simp
  from d(1) p have "d = sheetManifest 30 10 threeFrames" by simp
  with d f r p n v c show ?thesis by simp
qed

text \<open>
  C2. The claim asks that a rejected load leave no object URL of its own allocated.
  The source releases only the URL of the atlas loaded before: when the manifest has
  parsed and the load is rejected afterwards (the image does not decode, or a frame
  is out of bounds), the URL created for the texture is still allocated.
\<close>

theorem rejected_load_keeps_textureURL:
  assumes "parseAtlasJSON file = Inr d"
    and "fst (loadAtlas img file st) = Inl e"
    and "\<forall>la. loadedAtlas (snd st) = Some la \<longrightarrow> textureURL la < nextURL (fst st)"
  shows "nextURL (fst st) \<notin> objectURLs (fst st) \<longrightarrow>
         nextURL (fst st) \<in> objectURLs (fst (snd (loadAtlas img file st))) \<and>
         \<not> objectURLs (fst (snd (loadAtlas img file st))) \<subseteq> objectURLs (fst st)"
proof -
  have "nextURL (fst st) \<in> objectURLs (fst (snd (loadAtlas img file st)))"
    using assms
    by (cases st)
      (auto simp: loadAtlas_def validateTextureImage_def imageOnload_def createObjectURL_def
        revokeObjectURL_def AtlasLoader_cleanup_def console_warn_def Let_def
        split: sum.splits prod.splits option.splits)
  then show ?thesis by auto
qed

theorem rejected_load_keeps_textureURL_witness:
  "parseAtlasJSON (Parsed (Object (sheetManifest 30 10 threeFrames))) =
     Inr (sheetManifest 30 10 threeFrames) \<and>
   fst (loadAtlas (Some (5, 5)) (Parsed (Object (sheetManifest 30 10 threeFrames)))
      (freshHost, new_AtlasLoader)) = Inl (FrameBounds 0 (Some ''a_02.png'')) \<and>
   loadedAtlas new_AtlasLoader = None \<and>
   objectURLs freshHost = {} \<and>
   0 \<in> objectURLs (fst (snd (loadAtlas (Some (5, 5))
      (Parsed (Object (sheetManifest 30 10 threeFrames))) (freshHost, new_AtlasLoader)))) \<and>
   objectURLs (fst (snd (loadAtlas (Some (5, 5))
      (Parsed (Object (sheetManifest 30 10 threeFrames))) (freshHost, new_AtlasLoader)))) = {0} \<and>
   fst (loadAtlas None (Parsed (Object (sheetManifest 30 10 threeFrames)))
      (freshHost, new_AtlasLoader)) = Inl ImageLoadFailed \<and>
   objectURLs (fst (snd (loadAtlas None
      (Parsed (Object (sheetManifest 30 10 threeFrames))) (freshHost, new_AtlasLoader)))) = {0}"
proof -
  let ?file = "Parsed (Object (sheetManifest 30 10 threeFrames))"
  have p: "parseAtlasJSON ?file = Inr (sheetManifest 30 10 threeFrames)" by code_simp
  have r: "fst (loadAtlas (Some (5, 5)) ?file (freshHost, new_AtlasLoader)) =
      Inl (FrameBounds 0 (Some ''a_02.png''))" by code_simp
  have l: "loadedAtlas new_AtlasLoader = None" by (simp add: new_AtlasLoader_def)
  have h: "objectURLs freshHost = {}" "nextURL freshHost = 0" by (simp_all add: freshHost_def)
  have u: "objectURLs (fst (snd (loadAtlas (Some (5, 5)) ?file (freshHost, new_AtlasLoader)))) = {0}"
    by code_simp
  have r': "fst (loadAtlas None ?file (freshHost, new_AtlasLoader)) = Inl ImageLoadFailed"
    by code_simp
  have u': "objectURLs (fst (snd (loadAtlas None ?file (freshHost, new_AtlasLoader)))) = {0}"
    by code_simp
  show ?thesis
    using rejected_load_keeps_textureURL [of ?file "sheetManifest 30 10 threeFrames"
        "Some (5, 5)" "(freshHost, new_AtlasLoader)" "FrameBounds 0 (Some ''a_02.png'')"]
      p r l h u r' u'
    by simp
qed

lemma validated_frames_have_rect:
  assumes "parseAtlasJSON file = Inr d" "fr \<in> set (framesOf d)"
  shows "\<exists>r. frame fr = Some r"
proof -
  have v: "validateFrames (framesOf d) 0 = Inr ()"
    using parse_success_frames [OF assms(1)] by blast
  obtain k where k: "k < length (framesOf d)" "fr = framesOf d ! k"
    using assms(2) by (auto simp: in_set_conv_nth)
  have "validateFrameStructure (framesOf d ! k) (0 + k) = Inr ()"
    using validateFrames_all [OF v k(1)] .
  then show ?thesis using validated_frame_rect k(2) by blast
qed

lemma loadAtlas_warnings:
  assumes "parseAtlasJSON file = Inr d" "firstTexture d = Some t" "tex_size t = Some sz"
  shows "warnings (fst (snd (loadAtlas (Some (W, H)) file st))) =
     warnings (fst st) @
       (if Some W \<noteq> size_w sz \<or> Some H \<noteq> size_h sz then [(size_w sz, size_h sz, W, H)] else [])"
  using assms
  by (cases st)
    (auto simp: loadAtlas_def validateTextureImage_def imageOnload_def createObjectURL_def
      revokeObjectURL_def AtlasLoader_cleanup_def console_warn_def Let_def
      split: sum.splits prod.splits option.splits)

text \<open>
  C3, as amended. For a manifest that passed structural validation and an image that
  decoded to \<open>W\<close> by \<open>H\<close>: when no frame rectangle reaches beyond the image the load
  succeeds whatever size the manifest declares, and a declared size that differs adds
  one warning and nothing else; when some frame has \<open>x + w > W\<close> or \<open>y + h > H\<close>,
  the load fails with the bounds error that names the index and the file name of the
  first such frame.
\<close>

theorem bounds_check_outcome:
  assumes "parseAtlasJSON file = Inr d"
    and "firstTexture d = Some t" and "tex_size t = Some sz"
  shows "((\<forall>fr\<in>set (framesOf d). \<forall>r. frame fr = Some r \<longrightarrow> \<not> outOfBounds r W H) \<longrightarrow>
            \<not> isl (fst (loadAtlas (Some (W, H)) file st))) \<and>
         warnings (fst (snd (loadAtlas (Some (W, H)) file st))) =
            warnings (fst st) @
              (if Some W \<noteq> size_w sz \<or> Some H \<noteq> size_h sz
               then [(size_w sz, size_h sz, W, H)] else []) \<and>
         (k < length (framesOf d) \<and>
          (\<forall>j<k. \<forall>r. frame (framesOf d ! j) = Some r \<longrightarrow> \<not> outOfBounds r W H) \<and>
          frame (framesOf d ! k) =
            Some \<lparr>rect_x = Some x, rect_y = Some y, rect_w = Some w, rect_h = Some h\<rparr> \<and>
          (x + w > W \<or> y + h > H) \<longrightarrow>
            fst (loadAtlas (Some (W, H)) file st) =
              Inl (FrameBounds k (filename (framesOf d ! k))))"
proof (intro conjI impI)
  assume a: "\<forall>fr\<in>set (framesOf d). \<forall>r. frame fr = Some r \<longrightarrow> \<not> outOfBounds r W H"
  have "\<forall>fr\<in>set (framesOf d). \<exists>r. frame fr = Some r \<and> \<not> outOfBounds r W H"
    using a validated_frames_have_rect [OF assms(1)] by blast
  then have "checkBounds (framesOf d) 0 W H = Inr ()" by (rule checkBounds_ok)
  then show "\<not> isl (fst (loadAtlas (Some (W, H)) file st))"
    by (simp add: loadAtlas_decoded [OF assms(1)])
next
  show "warnings (fst (snd (loadAtlas (Some (W, H)) file st))) =
            warnings (fst st) @
              (if Some W \<noteq> size_w sz \<or> Some H \<noteq> size_h sz
               then [(size_w sz, size_h sz, W, H)] else [])"
    by (rule loadAtlas_warnings [OF assms])
next
  assume b: "k < length (framesOf d) \<and>
          (\<forall>j<k. \<forall>r. frame (framesOf d ! j) = Some r \<longrightarrow> \<not> outOfBounds r W H) \<and>
          frame (framesOf d ! k) =
            Some \<lparr>rect_x = Some x, rect_y = Some y, rect_w = Some w, rect_h = Some h\<rparr> \<and>
          (x + w > W \<or> y + h > H)"
  let ?r = "\<lparr>rect_x = Some x, rect_y = Some y, rect_w = Some w, rect_h = Some h\<rparr>"
  have "\<forall>j<k. \<exists>r. frame (framesOf d ! j) = Some r \<and> \<not> outOfBounds r W H"
  proof (intro allI impI)
    fix j assume "j < k"
    then have "framesOf d ! j \<in> set (framesOf d)" using b by simp
    then obtain r where "frame (framesOf d ! j) = Some r"
      using validated_frames_have_rect [OF assms(1)] by blast
    then show "\<exists>r. frame (framesOf d ! j) = Some r \<and> \<not> outOfBounds r W H"
      using b \<open>j < k\<close> by blast
  qed
  moreover have "outOfBounds ?r W H" using b by (simp add: outOfBounds_def exceeds_def)
  ultimately have "checkBounds (framesOf d) 0 W H =
      Inl (FrameBounds (0 + k) (filename (framesOf d ! k)))"
    using b checkBounds_first [of k "framesOf d" W H ?r 0] by blast
  then show "fst (loadAtlas (Some (W, H)) file st) =
      Inl (FrameBounds k (filename (framesOf d ! k)))"
    by (simp add: loadAtlas_decoded [OF assms(1)])
qed

theorem bounds_check_outcome_witness:
  "parseAtlasJSON (Parsed (Object (sheetManifest 64 64 threeFrames))) =
     Inr (sheetManifest 64 64 threeFrames) \<and>
   framesOf (sheetManifest 64 64 threeFrames) = threeFrames \<and>
   \<not> isl (fst (loadAtlas (Some (30, 10)) (Parsed (Object (sheetManifest 64 64 threeFrames)))
      (freshHost, new_AtlasLoader))) \<and>
   warnings (fst (snd (loadAtlas (Some (30, 10)) (Parsed (Object (sheetManifest 64 64 threeFrames)))
      (freshHost, new_AtlasLoader)))) = [(Some 64, Some 64, 30, 10)] \<and>
   frame (threeFrames ! 1) =
     Some \<lparr>rect_x = Some 10, rect_y = Some 0, rect_w = Some 10, rect_h = Some 10\<rparr> \<and>
   fst (loadAtlas (Some (15, 10)) (Parsed (Object (sheetManifest 64 64 threeFrames)))
      (freshHost, new_AtlasLoader)) = Inl (FrameBounds 1 (Some ''a_10.png''))"
proof -
  let ?d = "sheetManifest 64 64 threeFrames"
  let ?t = "\<lparr>tex_image = Some ''sheet.png'', tex_format = Some ''RGBA8888'',
        tex_size = Some \<lparr>size_w = Some 64, size_h = Some 64\<rparr>,
        tex_scale = Some 1, tex_frames = Some threeFrames\<rparr>"
  let ?sz = "\<lparr>size_w = Some 64, size_h = Some 64\<rparr>"
  have p: "parseAtlasJSON (Parsed (Object ?d)) = Inr ?d" by code_simp
  have t: "firstTexture ?d = Some ?t" by (simp add: sheetManifest_def firstTexture_def)
  have s: "tex_size ?t = Some ?sz" by simp
  have f: "framesOf ?d = threeFrames" by (simp add: sheetManifest_def firstTexture_def framesOf_def)
  have inb: "\<forall>fr\<in>set threeFrames. \<forall>r. frame fr = Some r \<longrightarrow> \<not> outOfBounds r 30 10"
    by (simp add: threeFrames_def packedFrame_def outOfBounds_def exceeds_def)
  have k: "frame (threeFrames ! 1) =
      Some \<lparr>rect_x = Some 10, rect_y = Some 0, rect_w = Some 10, rect_h = Some 10\<rparr>"
    by (simp add: threeFrames_def packedFrame_def)
  have j: "\<forall>j<1::nat. \<forall>r. frame (threeFrames ! j) = Some r \<longrightarrow> \<not> outOfBounds r 15 10"
    by (simp add: threeFrames_def packedFrame_def outOfBounds_def exceeds_def)
  have n: "filename (threeFrames ! 1) = Some ''a_10.png''"
    by (simp add: threeFrames_def packedFrame_def)
  have l: "(1::nat) < length threeFrames" by (simp add: threeFrames_def)
  have w: "warnings freshHost = []" by (simp add: freshHost_def)
  show ?thesis
    using bounds_check_outcome [OF p t s, of 30 10 "(freshHost, new_AtlasLoader)" 1 10 0 10 10]
      bounds_check_outcome [OF p t s, of 15 10 "(freshHost, new_AtlasLoader)" 1 10 0 10 10]
      p f inb k j n l w
    by simp
qed

theorem bounds_check_outcome_counterexample:
  "frame (threeFrames ! 1) =
     Some \<lparr>rect_x = Some 10, rect_y = Some 0, rect_w = Some 10, rect_h = Some 10\<rparr> \<and>
   (10::int) + 10 > 5 \<and>
   fst (loadAtlas (Some (5, 5)) (Parsed (Object (sheetManifest 30 10 threeFrames)))
      (freshHost, new_AtlasLoader)) = Inl (FrameBounds 0 (Some ''a_02.png'')) \<and>
   fst (loadAtlas (Some (5, 5)) (Parsed (Object (sheetManifest 30 10 threeFrames)))
      (freshHost, new_AtlasLoader)) \<noteq> Inl (FrameBounds 1 (filename (threeFrames ! 1)))"
proof -
  have k: "frame (threeFrames ! 1) =
      Some \<lparr>rect_x = Some 10, rect_y = Some 0, rect_w = Some 10, rect_h = Some 10\<rparr>"
    by (simp add: threeFrames_def packedFrame_def)
  have r: "fst (loadAtlas (Some (5, 5)) (Parsed (Object (sheetManifest 30 10 threeFrames)))
      (freshHost, new_AtlasLoader)) = Inl (FrameBounds 0 (Some ''a_02.png''))"
    by code_simp
  show ?thesis using k r by simp
qed

lemma loadAtlas_parse_error:
  "parseAtlasJSON file = Inl e \<Longrightarrow> fst (loadAtlas img file st) = Inl e"
  by (simp add: loadAtlas_def)

lemma loadAtlas_error_after_parse:
  assumes "parseAtlasJSON file = Inr d" "fst (loadAtlas img file st) = Inl e"
  shows "e = ImageLoadFailed \<or> e = TypeError \<or> (\<exists>i nm. e = FrameBounds i nm)"
proof (cases img)
  case None
  then show ?thesis
    using assms
    by (auto simp: loadAtlas_def validateTextureImage_def createObjectURL_def Let_def
        split: prod.splits)
next
  case (Some wh)
  obtain W H where wh: "wh = (W, H)" by (cases wh)
  have bounds: "checkBounds frs i W H = Inl e \<Longrightarrow> e = TypeError \<or> (\<exists>k nm. e = FrameBounds k nm)"
    for frs i
    by (induction frs arbitrary: i) (auto split: option.splits if_splits)
  show ?thesis
    using assms Some wh loadAtlas_decoded [OF assms(1), of W H st] bounds
    by (auto split: sum.splits)
qed

text \<open>
  C9, as amended. In a manifest that gets as far as the frame records, a frame record
  with its \<open>filename\<close>, \<open>frame\<close> and \<open>sourceSize\<close> present, whose predecessors are all
  valid, stops the load with the coordinates error naming its index exactly when its
  rectangle lacks \<open>x\<close> or \<open>y\<close>, or lacks \<open>w\<close> or \<open>h\<close>, or has \<open>w\<close> or \<open>h\<close>
  equal to zero. Zero is accepted for \<open>x\<close> and \<open>y\<close>, and so is any other number for
  \<open>w\<close> and \<open>h\<close>, negative ones included.
\<close>

theorem frame_rectangle_check:
  assumes "file = Parsed (Object d)" and "textures d = Some (t # ts)"
    and "tex_image t = Some im" and "tex_size t = Some sz"
    and "\<not> falsy (size_w sz)" and "\<not> falsy (size_h sz)"
    and "tex_frames t = Some frs" and "k < length frs"
    and "\<forall>j<k. validateFrameStructure (frs ! j) j = Inr ()"
    and "filename (frs ! k) = Some nm" and "frame (frs ! k) = Some r"
    and "sourceSize (frs ! k) = Some src"
  shows "fst (loadAtlas img file st) = Inl (FrameCoordinates k) \<longleftrightarrow>
         rect_x r = None \<or> rect_y r = None \<or> rect_w r = None \<or> rect_w r = Some 0 \<or>
         rect_h r = None \<or> rect_h r = Some 0"
proof
  assume bad: "rect_x r = None \<or> rect_y r = None \<or> rect_w r = None \<or> rect_w r = Some 0 \<or>
         rect_h r = None \<or> rect_h r = Some 0"
  have "validateFrameStructure (frs ! k) (0 + k) = Inl (FrameCoordinates k)"
    using bad assms(10-12) by (auto simp: validateFrameStructure_coordinates falsy_def)
  moreover have "\<forall>j<k. validateFrameStructure (frs ! j) (0 + j) = Inr ()" using assms(9) by simp
  ultimately have "validateFrames frs 0 = Inl (FrameCoordinates k)"
    using validateFrames_first_error [OF assms(8)] by blast
  moreover have "frs \<noteq> []" using assms(8) by auto
  ultimately have "parseAtlasJSON file = Inl (FrameCoordinates k)"
    using assms(1-7)
    by (simp add: parseAtlasJSON_def validateAtlasStructure_def validateTextureStructure_def)
  then show "fst (loadAtlas img file st) = Inl (FrameCoordinates k)"
    by (rule loadAtlas_parse_error)
next
  assume fails: "fst (loadAtlas img file st) = Inl (FrameCoordinates k)"
  have "parseAtlasJSON file = Inl (FrameCoordinates k)"
  proof (cases "parseAtlasJSON file")
    case (Inl e)
    then show ?thesis using fails loadAtlas_parse_error [OF Inl, of img st] by simp
  next
    case (Inr d')
    then show ?thesis using loadAtlas_error_after_parse [OF Inr fails] by auto
  qed
  then have "validateFrames frs 0 = Inl (FrameCoordinates k)"
    using assms(1-7)
    by (simp add: parseAtlasJSON_def validateAtlasStructure_def validateTextureStructure_def
        split: if_splits sum.splits)
  then obtain k' where "k' < length frs"
    "validateFrameStructure (frs ! k') (0 + k') = Inl (FrameCoordinates k)"
    using validateFrames_error_index by blast
  then have "validateFrameStructure (frs ! k) k = Inl (FrameCoordinates k)"
    by (auto simp: validateFrameStructure_coordinates)
  then show "rect_x r = None \<or> rect_y r = None \<or> rect_w r = None \<or> rect_w r = Some 0 \<or>
         rect_h r = None \<or> rect_h r = Some 0"
    using assms(11) by (auto simp: validateFrameStructure_coordinates falsy_def)
qed

theorem frame_rectangle_check_witness:
  "validateFrameStructure (packedFrame ''a.png'' 0 0 5 3) 0 = Inr () \<and>
   rect_w \<lparr>rect_x = Some 0, rect_y = Some 0, rect_w = None, rect_h = Some 3\<rparr> = None \<and>
   fst (loadAtlas (Some (64, 64))
      (Parsed (Object (sheetManifest 64 64 [packedFrame ''a.png'' 0 0 5 3, noWidthFrame])))
      (freshHost, new_AtlasLoader)) = Inl (FrameCoordinates 1)"
proof -
  let ?frs = "[packedFrame ''a.png'' 0 0 5 3, noWidthFrame]"
  let ?d = "sheetManifest 64 64 ?frs"
  let ?t = "\<lparr>tex_image = Some ''sheet.png'', tex_format = Some ''RGBA8888'',
        tex_size = Some \<lparr>size_w = Some 64, size_h = Some 64\<rparr>,
        tex_scale = Some 1, tex_frames = Some ?frs\<rparr>"
  let ?sz = "\<lparr>size_w = Some (64::int), size_h = Some (64::int)\<rparr>"
  let ?r = "\<lparr>rect_x = Some (0::int), rect_y = Some (0::int), rect_w = None, rect_h = Some (3::int)\<rparr>"
  have a1: "textures ?d = Some (?t # [])" by (simp add: sheetManifest_def)
  have a5: "\<not> falsy (size_w ?sz)" "\<not> falsy (size_h ?sz)" by (simp_all add: falsy_def)
  have v0: "validateFrameStructure (packedFrame ''a.png'' 0 0 5 3) 0 = Inr ()" by code_simp
  have a9: "\<forall>j<1::nat. validateFrameStructure (?frs ! j) j = Inr ()" using v0 by simp
  have a10: "filename (?frs ! 1) = Some ''c.png''" by (simp add: noWidthFrame_def packedFrame_def)
  have a11: "frame (?frs ! 1) = Some ?r" by (simp add: noWidthFrame_def packedFrame_def)
  have a12: "sourceSize (?frs ! 1) = Some \<lparr>size_w = Some 5, size_h = Some 3\<rparr>"
    by (simp add: noWidthFrame_def packedFrame_def)
  have "fst (loadAtlas (Some (64, 64)) (Parsed (Object ?d)) (freshHost, new_AtlasLoader)) =
      Inl (FrameCoordinates 1)"
    using frame_rectangle_check [OF refl a1 _ _ a5 _ _ a9 a10 a11 a12,
        of "''sheet.png''" "Some (64, 64)" "(freshHost, new_AtlasLoader)"]
    by simp
  with v0 show ?thesis by simp
qed

theorem frame_rectangle_check_counterexample:
  "frame negativeWidthFrame =
     Some \<lparr>rect_x = Some 0, rect_y = Some 0, rect_w = Some (- 5), rect_h = Some 3\<rparr> \<and>
   validateFrameStructure negativeWidthFrame 0 = Inr () \<and>
   \<not> isl (fst (loadAtlas (Some (64, 64))
      (Parsed (Object (sheetManifest 64 64 [negativeWidthFrame])))
      (freshHost, new_AtlasLoader)))"
proof -
  have f: "frame negativeWidthFrame =
     Some \<lparr>rect_x = Some 0, rect_y = Some 0, rect_w = Some (- 5), rect_h = Some 3\<rparr>"
    by (simp add: negativeWidthFrame_def packedFrame_def)
  have v: "validateFrameStructure negativeWidthFrame 0 = Inr ()" by code_simp
  have l: "\<not> isl (fst (loadAtlas (Some (64, 64))
      (Parsed (Object (sheetManifest 64 64 [negativeWidthFrame])))
      (freshHost, new_AtlasLoader)))" by code_simp
  show ?thesis using f v l by simp
qed

section \<open>Placing the sprite\<close>

lemma canvasCenter_value: "canvasCenter = (Num 400, Num 300)"
  by code_simp

text \<open>
  C8. While a sprite is shown: for a frame with both \<open>spriteSourceSize\<close> and
  \<open>sourceSize\<close> the sprite is put at the canvas centre plus the offset times the scale
  factor, the offset being \<open>spriteSourceSize.x + spriteSourceSize.w / 2 - sourceSize.w / 2\<close>
  and likewise in \<open>y\<close>, all in the arithmetic of the source; for a frame lacking one of
  the two it is put at the canvas centre, which is (400, 300).
\<close>

theorem adjustSpritePosition_places:
  assumes "sprite r = Some sp"
  shows "(spriteSourceSize fd = Some sss \<and> sourceSize fd = Some src \<longrightarrow>
            spritePosition (adjustSpritePosition fd r) =
              Some (num_add (fst canvasCenter)
                      (num_mul (num_sub (num_add (toNumber (rect_x sss))
                                           (num_half (toNumber (rect_w sss))))
                                  (num_half (toNumber (size_w src))))
                         (scaleFactor r)),
                    num_add (snd canvasCenter)
                      (num_mul (num_sub (num_add (toNumber (rect_y sss))
                                           (num_half (toNumber (rect_h sss))))
                                  (num_half (toNumber (size_h src))))
                         (scaleFactor r)))) \<and>
         (spriteSourceSize fd = None \<or> sourceSize fd = None \<longrightarrow>
            spritePosition (adjustSpritePosition fd r) = Some (Num 400, Num 300)) \<and>
         canvasCenter = (Num 400, Num 300)"
  using assms canvasCenter_value
  by (auto simp: adjustSpritePosition_def setPosition_def spritePosition_def Let_def
      split: option.splits)

theorem adjustSpritePosition_places_witness:
  "sprite halfSizeRenderer = Some \<lparr>sprite_x = Num 0, sprite_y = Num 0, sprite_scale = Num (1 / 2)\<rparr> \<and>
   spriteSourceSize trimmedFrame =
     Some \<lparr>rect_x = Some 10, rect_y = Some 20, rect_w = Some 30, rect_h = Some 40\<rparr> \<and>
   sourceSize trimmedFrame = Some \<lparr>size_w = Some 100, size_h = Some 100\<rparr> \<and>
   spritePosition (adjustSpritePosition trimmedFrame halfSizeRenderer) =
     Some (Num (775 / 2), Num 295) \<and>
   spriteSourceSize (trimmedFrame\<lparr>spriteSourceSize := None\<rparr>) = None \<and>
   spritePosition (adjustSpritePosition (trimmedFrame\<lparr>spriteSourceSize := None\<rparr>) halfSizeRenderer) =
     Some (Num 400, Num 300)"
proof -
  have s: "sprite halfSizeRenderer =
      Some \<lparr>sprite_x = Num 0, sprite_y = Num 0, sprite_scale = Num (1 / 2)\<rparr>"
    by (simp add: halfSizeRenderer_def)
  have t: "spriteSourceSize trimmedFrame =
      Some \<lparr>rect_x = Some 10, rect_y = Some 20, rect_w = Some 30, rect_h = Some 40\<rparr>"
    "sourceSize trimmedFrame = Some \<lparr>size_w = Some 100, size_h = Some 100\<rparr>"
    by (simp_all add: trimmedFrame_def)
  have f: "scaleFactor halfSizeRenderer = Num (1 / 2)" by (simp add: halfSizeRenderer_def)
  have x: "num_add (Num 400)
      (num_mul (num_sub (num_add (toNumber (Some 10)) (num_half (toNumber (Some 30))))
         (num_half (toNumber (Some 100)))) (Num (1 / 2))) = Num (775 / 2)"
    by code_simp
  have y: "num_add (Num 300)
      (num_mul (num_sub (num_add (toNumber (Some 20)) (num_half (toNumber (Some 40))))
         (num_half (toNumber (Some 100)))) (Num (1 / 2))) = Num 295"
    by code_simp
  have c: "fst canvasCenter = Num 400" "snd canvasCenter = Num 300"
    by (simp_all only: canvasCenter_value fst_conv snd_conv)
  have "spritePosition (adjustSpritePosition trimmedFrame halfSizeRenderer) =
      Some (num_add (fst canvasCenter)
              (num_mul (num_sub (num_add (toNumber (Some 10)) (num_half (toNumber (Some 30))))
                 (num_half (toNumber (Some 100)))) (scaleFactor halfSizeRenderer)),
            num_add (snd canvasCenter)
              (num_mul (num_sub (num_add (toNumber (Some 20)) (num_half (toNumber (Some 40))))
                 (num_half (toNumber (Some 100)))) (scaleFactor halfSizeRenderer)))"
    using adjustSpritePosition_places [OF s, of trimmedFrame
        "\<lparr>rect_x = Some 10, rect_y = Some 20, rect_w = Some 30, rect_h = Some 40\<rparr>"
        "\<lparr>size_w = Some 100, size_h = Some 100\<rparr>"] t
    by (simp only: Rect.simps Size.simps simp_thms)
  then have p1: "spritePosition (adjustSpritePosition trimmedFrame halfSizeRenderer) =
      Some (Num (775 / 2), Num 295)"
    by (simp only: c f x y)
  have n: "spriteSourceSize (trimmedFrame\<lparr>spriteSourceSize := None\<rparr>) = None" by simp
  have p2: "spritePosition
      (adjustSpritePosition (trimmedFrame\<lparr>spriteSourceSize := None\<rparr>) halfSizeRenderer) =
      Some (Num 400, Num 300)"
    using adjustSpritePosition_places [OF s, of "trimmedFrame\<lparr>spriteSourceSize := None\<rparr>"] n
    by (simp only: simp_thms)
  show ?thesis using s t p1 n p2 by (simp only: simp_thms)
qed

section \<open>Progress and back\<close>

lemma pow2_less_imp_less: "pow2 a < pow2 b \<Longrightarrow> a < b"
  using pow2_mono [of b a] by (cases "a < b") auto

lemma round_double_error:
  assumes "pow2 (- 1022) \<le> x"
  shows "\<bar>round_double x - x\<bar> \<le> x / 2 ^ 53"
proof -
  have x: "0 < x" using assms pow2_pos [of "- 1022"] by linarith
  let ?e = "ilog2 x"
  let ?u = "pow2 (?e - 52)"
  have up: "0 < ?u" by (rule pow2_pos)
  have b: "pow2 ?e \<le> x" "x < pow2 (?e + 1)" using ilog2_bounds [OF x] by simp_all
  have "pow2 (- 1022) < pow2 (?e + 1)" using assms b(2) by linarith
  then have "- 1022 < ?e + 1" by (rule pow2_less_imp_less)
  then have m: "max ?e (- 1022) = ?e" by simp
  have rd: "round_double x = of_int (round_half_even (x / ?u)) * ?u"
    using round_double_pos [OF x] by (simp only: m)
  have "round_double x - x = (of_int (round_half_even (x / ?u)) - x / ?u) * ?u"
    using up by (simp add: rd field_simps)
  then have "\<bar>round_double x - x\<bar> = \<bar>of_int (round_half_even (x / ?u)) - x / ?u\<bar> * ?u"
    using up by (simp add: abs_mult)
  also have "\<dots> \<le> (1 / 2) * ?u"
    using rhe_err [of "x / ?u"] up by (intro mult_right_mono) simp_all
  also have "\<dots> = pow2 ?e / 2 ^ 53"
  proof -
    have "pow2 ?e = ?u * pow2 52" using pow2_add [of "?e - 52" 52] by simp
    then show ?thesis by (simp add: pow2_def)
  qed
  also have "\<dots> \<le> x / 2 ^ 53" using b(1) by (simp add: divide_right_mono)
  finally show ?thesis .
qed

lemma pow2_tiny: "pow2 (- 1022) \<le> 1 / 2 ^ 32"
proof -
  have "pow2 (- 1022) \<le> pow2 (- 32)" by (rule pow2_mono) simp
  also have "pow2 (- 32) = 1 / 2 ^ 32" using pow2_neg [of "- 32"] by simp
  finally show ?thesis .
qed

lemma round_trip_near:
  assumes c: "1 \<le> c" "c \<le> m" and m: "m \<le> 2 ^ 32"
  shows "of_int c - 1 < dmul (ddiv (of_int c) (of_int m)) (of_int m) \<and>
         dmul (ddiv (of_int c) (of_int m)) (of_int m) < of_int c + 1"
proof -
  define C :: rat where "C = of_int c"
  define M :: rat where "M = of_int m"
  define q where "q = round_double (C / M)"
  define r where "r = round_double (q * M)"
  define dl :: rat where "dl = 1 / 2 ^ 21"
  have C1: "1 \<le> C" using c by (simp add: C_def)
  have CM: "C \<le> M" using c by (simp add: C_def M_def)
  have M0: "0 < M" using C1 CM by linarith
  have "(of_int m :: rat) \<le> of_int (2 ^ 32)" using m by (simp only: of_int_le_iff)
  then have M32: "M \<le> 2 ^ 32" by (simp add: M_def)
  have C32: "C \<le> 2 ^ 32" using CM M32 by linarith
  have x1: "1 / 2 ^ 32 \<le> C / M"
  proof -
    have "1 / 2 ^ 32 \<le> 1 / M" using M0 M32 by (simp add: field_simps)
    also have "\<dots> \<le> C / M" using C1 M0 by (simp add: divide_right_mono)
    finally show ?thesis .
  qed
  have e1: "\<bar>q - C / M\<bar> \<le> (C / M) / 2 ^ 53"
    unfolding q_def using pow2_tiny x1 by (intro round_double_error) (rule order_trans)
  have "q * M - C = (q - C / M) * M" using M0 by (simp add: field_simps)
  then have "\<bar>q * M - C\<bar> = \<bar>q - C / M\<bar> * M" using M0 by (simp add: abs_mult)
  also have "\<dots> \<le> ((C / M) / 2 ^ 53) * M" using e1 M0 by (intro mult_right_mono) simp_all
  also have "\<dots> = C / 2 ^ 53" using M0 by simp
  also have "\<dots> \<le> 2 ^ 32 / 2 ^ 53" using C32 by (simp add: divide_right_mono)
  also have "\<dots> = dl" by (simp add: dl_def)
  finally have e2: "\<bar>q * M - C\<bar> \<le> dl" .
  have dl: "dl \<le> 1 / 4" "0 < dl" by (simp_all add: dl_def)
  have x2lo: "1 / 2 \<le> q * M" using e2 C1 dl by linarith
  have x2hi: "q * M \<le> 2 ^ 32 + 1" using e2 C32 dl by linarith
  have "(1::rat) / 2 ^ 32 \<le> 1 / 2" by simp
  then have "pow2 (- 1022) \<le> q * M" using pow2_tiny x2lo by linarith
  then have "\<bar>r - q * M\<bar> \<le> (q * M) / 2 ^ 53" unfolding r_def by (rule round_double_error)
  also have "\<dots> \<le> (2 ^ 32 + 1) / 2 ^ 53" using x2hi by (simp add: divide_right_mono)
  also have "\<dots> \<le> 2 * dl" by (simp add: dl_def)
  finally have e3: "\<bar>r - q * M\<bar> \<le> 2 * dl" .
  have "\<bar>r - C\<bar> \<le> 3 * dl" using e2 e3 by linarith
  then have "C - 1 < r \<and> r < C + 1" using dl by linarith
  then show ?thesis by (simp add: r_def q_def C_def M_def dmul_def ddiv_def)
qed

lemma round_trip_index:
  assumes "1 \<le> c" "c \<le> m" "m \<le> 2 ^ 32"
  shows "\<lfloor>dmul (ddiv (of_int c) (of_int m)) (of_int m)\<rfloor> = c \<or>
         \<lfloor>dmul (ddiv (of_int c) (of_int m)) (of_int m)\<rfloor> = c - 1"
proof -
  let ?r = "dmul (ddiv (of_int c) (of_int m)) (of_int m)"
  have b: "of_int c - 1 < ?r" "?r < of_int c + 1" using round_trip_near [OF assms] by simp_all
  have "of_int (c - 1) \<le> ?r" using b(1) by simp
  then have lo: "c - 1 \<le> \<lfloor>?r\<rfloor>" by (simp only: le_floor_iff)
  have "?r < of_int (c + 1)" using b(2) by simp
  then have "\<lfloor>?r\<rfloor> < c + 1" by (simp only: floor_less_iff)
  with lo show ?thesis by linarith
qed

text \<open>
  C10, as amended. With at least one frame and \<open>currentFrame\<close> in range, \<open>getProgress\<close>
  returns the double quotient of \<open>currentFrame\<close> by \<open>totalFrames - 1\<close>, and 0 when
  there is one frame only. Feeding it back through \<open>setFrameFromProgress\<close> leaves
  \<open>currentFrame\<close> where it was or one frame before; it leaves it where it was whenever
  the quotient is exact, as on the first and on the last frame.
\<close>

theorem progress_round_trip:
  assumes "1 \<le> totalFrames s" "0 \<le> currentFrame s" "currentFrame s \<le> totalFrames s - 1"
    and "totalFrames s \<le> 2 ^ 32"
  shows "getProgress s =
           (if totalFrames s \<le> 1 then 0
            else ddiv (of_int (currentFrame s)) (of_int (totalFrames s - 1))) \<and>
         (currentFrame (setFrameFromProgress (getProgress s) s) = currentFrame s \<or>
          currentFrame (setFrameFromProgress (getProgress s) s) = currentFrame s - 1) \<and>
         (getProgress s * of_int (totalFrames s - 1) = of_int (currentFrame s) \<longrightarrow>
          currentFrame (setFrameFromProgress (getProgress s) s) = currentFrame s)"
proof -
  let ?c = "currentFrame s"
  let ?m = "totalFrames s - 1"
  let ?i = "\<lfloor>dmul (getProgress s) (of_int ?m)\<rfloor>"
  have mx: "max 0 ?m = ?m" using assms by simp
  have c53: "?c < 2 ^ 53" using assms by simp
  have set: "currentFrame (setFrameFromProgress (getProgress s) s) = ?i"
    if "0 \<le> ?i" "?i \<le> ?m"
    using that
    by (simp add: setFrameFromProgress_def mx setFrame_def notifyFrameChange_def emit_def)
  have exact: "?i = ?c" if "getProgress s * of_int ?m = of_int ?c"
    using that round_double_int [OF assms(2) c53] by (simp add: dmul_def)
  have near: "?i = ?c \<or> ?i = ?c - 1"
  proof (cases "?c = 0")
    case True
    then have "getProgress s = 0" by (simp add: getProgress_def ddiv_def round_double_def)
    then show ?thesis using True by (simp add: dmul_def round_double_def)
  next
    case False
    then have c1: "1 \<le> ?c" using assms by simp
    then have "\<not> totalFrames s \<le> 1" using assms by simp
    then have g: "getProgress s = ddiv (of_int ?c) (of_int ?m)" by (simp add: getProgress_def)
    have "?m \<le> 2 ^ 32" using assms by simp
    then show ?thesis using round_trip_index [OF c1 assms(3)] g by simp
  qed
  have rng: "0 \<le> ?i \<and> ?i \<le> ?m"
  proof (cases "?c = 0")
    case True
    then have "getProgress s = 0" by (simp add: getProgress_def ddiv_def round_double_def)
    then show ?thesis using assms by (simp add: dmul_def round_double_def)
  next
    case False
    obtain i where i: "i = ?i" by simp
    have "i = ?c \<or> i = ?c - 1" using near by (simp only: i)
    then have "0 \<le> i \<and> i \<le> ?m" using False assms(2,3) by auto
    then show ?thesis by (simp only: i)
  qed
  have r1: "currentFrame (setFrameFromProgress (getProgress s) s) = ?i"
    using set rng by blast
  show ?thesis using r1 near exact by (simp add: getProgress_def)
qed

theorem progress_round_trip_witness:
  "totalFrames frame15of23 = 23 \<and> currentFrame frame15of23 = 15 \<and>
   getProgress frame15of23 = 6141272219141585 / 9007199254740992 \<and>
   currentFrame (setFrameFromProgress (getProgress frame15of23) frame15of23) = 14 \<and>
   currentFrame (setFrame 11 frame15of23) = 11 \<and>
   getProgress (setFrame 11 frame15of23) = 1 / 2 \<and>
   currentFrame (setFrameFromProgress (getProgress (setFrame 11 frame15of23))
     (setFrame 11 frame15of23)) = 11"
proof -
  let ?s2 = "setFrame 11 frame15of23"
  have t: "totalFrames frame15of23 = 23" "currentFrame frame15of23 = 15"
    by (simp_all add: frame15of23_def controller_defs new_FrameController_def)
  have t2: "totalFrames ?s2 = 23" "currentFrame ?s2 = 11"
    by (simp_all add: frame15of23_def controller_defs new_FrameController_def)
  have g: "getProgress frame15of23 = 6141272219141585 / 9007199254740992" by code_simp
  have r: "currentFrame (setFrameFromProgress (getProgress frame15of23) frame15of23) = 14"
    by code_simp
  have g2: "getProgress ?s2 = 1 / 2" by code_simp
  have ex: "getProgress ?s2 * of_int (totalFrames ?s2 - 1) = of_int (currentFrame ?s2)"
    by (simp add: g2 t2)
  have a: "1 \<le> totalFrames ?s2" "0 \<le> currentFrame ?s2"
    "currentFrame ?s2 \<le> totalFrames ?s2 - 1" "totalFrames ?s2 \<le> 2 ^ 32"
    by (simp_all add: t2)
  have "currentFrame (setFrameFromProgress (getProgress ?s2) ?s2) = currentFrame ?s2"
    using progress_round_trip [OF a] ex by blast
  then have r2: "currentFrame (setFrameFromProgress (getProgress ?s2) ?s2) = 11"
    by (simp only: t2)
  show ?thesis using t t2 g r g2 r2 by (simp only: simp_thms)
qed

theorem progress_round_trip_counterexample:
  "totalFrames frame15of23 = 23 \<and> currentFrame frame15of23 = 15 \<and>
   currentFrame (setFrameFromProgress (getProgress frame15of23) frame15of23) = 14"
  by code_simp

end
